theory Spec2Isabelle
  imports Complex_Main "HOL-Library.Log_Nat"
begin

section \<open>Timeout-tree analysis: the optimizer of tt\_analysis.py\<close>

text \<open>
  The program reads four fixed parameters and, per scenario row, six dynamic parameters,
  runs two bisection searches of \<open>LOG_PRECISION\<close> iterations each over the fraction
  \<open>x\<close> of block space given to timeout-tree leaves, and writes one row of metrics.

  Modelling decisions:
  \<^item> Python's \<open>int\<close> is \<open>int\<close>. Python's \<open>float\<close> is an IEEE-754 binary64 value: a sign
    and a magnitude that is a multiple of the unit in the last place of its binade, an
    infinity, or a NaN. Every arithmetic operation rounds the exact result to the nearest
    such value, ties to even, as the hardware does; results too large become infinities
    or, where Python does so, \<open>OverflowError\<close>.
  \<^item> \<open>**\<close> on floats follows CPython's \<open>float_pow\<close>: its special cases first, then the
    C library's \<open>pow\<close>, which is taken to return the correctly rounded power.
  \<^item> Exceptions are values: every function that can raise returns \<open>error + 'a\<close>.
  \<^item> The inputs are the values produced by \<open>int(...)\<close> and \<open>float(...)\<close> at lines
    66 to 75; parsing the CSV strings is outside the model.
  \<^item> The local variables of \<open>analyze_tt\<close> that outlive a loop iteration are the fields of
    the record \<open>frame\<close>. The frame also carries a log of the evaluations made, which is
    not a program variable: no program value depends on it.
\<close>

subsection \<open>Rounding to binary64\<close>

text \<open>
  \<open>ilog2 m\<close> is the exponent \<open>e\<close> with \<open>2^e \<le> m < 2^(e+1)\<close> of a positive \<open>m\<close>, computed on
  integers. \<open>expo\<close> clips it at the exponent of the subnormal numbers, and \<open>ulp m\<close> is the
  spacing of the binary64 values around \<open>m\<close> (53 significant bits).
\<close>

definition ilog2 :: "real \<Rightarrow> int" where
  "ilog2 m = (if 1 \<le> m then bitlen \<lfloor>m\<rfloor> - 1 else - bitlen (\<lceil>1 / m\<rceil> - 1))"

definition expo :: "real \<Rightarrow> int" where
  "expo m = (if m < 2 powi (- 1022) then - 1022 else ilog2 m)"

definition ulp :: "real \<Rightarrow> real" where
  "ulp m = 2 powi (expo m - 52)"

text \<open>The nearest integer, a tie going to the even one.\<close>

definition round_even :: "real \<Rightarrow> int" where
  "round_even r =
     (let f = \<lfloor>r\<rfloor>; d = r - of_int f
      in if d < 1 / 2 then f else if 1 / 2 < d then f + 1 else if even f then f else f + 1)"

text \<open>
  The magnitude nearest to \<open>m \<ge> 0\<close> among the multiples of \<open>ulp m\<close>. A result of
  \<open>2^1024\<close> stands for an overflow.
\<close>

definition rnd :: "real \<Rightarrow> real" where
  "rnd m = of_int (round_even (m / ulp m)) * ulp m"

subsection \<open>Errors and floats\<close>

datatype error =
  AssertionError | ZeroDivisionError | OverflowError | ValueError | NameError | ComplexResult

definition bind_err :: "error + 'a \<Rightarrow> ('a \<Rightarrow> error + 'b) \<Rightarrow> error + 'b" where
  "bind_err m f = (case m of Inl e \<Rightarrow> Inl e | Inr v \<Rightarrow> f v)"

text \<open>
  A float: \<open>Fin s m\<close> is the finite value of magnitude \<open>m\<close>, negative when \<open>s\<close> holds (so
  that \<open>Fin True 0\<close> is \<open>-0.0\<close>), \<open>Inf s\<close> an infinity, \<open>NaN\<close> a NaN.
\<close>

datatype pyfloat = Fin bool real | Inf bool | NaN

text \<open>The values a binary64 can hold.\<close>

fun is_double :: "pyfloat \<Rightarrow> bool" where
  "is_double (Fin s m) \<longleftrightarrow> 0 \<le> m \<and> m < 2 ^ 1024 \<and> rnd m = m"
| "is_double (Inf s) \<longleftrightarrow> True"
| "is_double NaN \<longleftrightarrow> True"

fun fval :: "pyfloat \<Rightarrow> real" where
  "fval (Fin s m) = (if s then - m else m)"
| "fval (Inf s) = 0"
| "fval NaN = 0"

fun is_zero :: "pyfloat \<Rightarrow> bool" where
  "is_zero (Fin s m) \<longleftrightarrow> m = 0"
| "is_zero (Inf s) \<longleftrightarrow> False"
| "is_zero NaN \<longleftrightarrow> False"

text \<open>The float of sign \<open>s\<close> nearest to the exact magnitude \<open>m\<close>.\<close>

definition pack :: "bool \<Rightarrow> real \<Rightarrow> pyfloat" where
  "pack s m = (let r = rnd m in if 2 ^ 1024 \<le> r then Inf s else Fin s r)"

fun fneg :: "pyfloat \<Rightarrow> pyfloat" where
  "fneg (Fin s m) = Fin (\<not> s) m"
| "fneg (Inf s) = Inf (\<not> s)"
| "fneg NaN = NaN"

text \<open>\<open>a + b\<close>: an exact zero sum is \<open>-0.0\<close> only when both operands are negative.\<close>

fun fadd :: "pyfloat \<Rightarrow> pyfloat \<Rightarrow> pyfloat" where
  "fadd NaN b = NaN"
| "fadd a NaN = NaN"
| "fadd (Inf s) (Inf t) = (if s = t then Inf s else NaN)"
| "fadd (Inf s) (Fin t n) = Inf s"
| "fadd (Fin s m) (Inf t) = Inf t"
| "fadd (Fin s m) (Fin t n) =
     (let v = fval (Fin s m) + fval (Fin t n)
      in if v = 0 then Fin (s \<and> t) 0 else pack (v < 0) \<bar>v\<bar>)"

definition fsub :: "pyfloat \<Rightarrow> pyfloat \<Rightarrow> pyfloat" where
  "fsub a b = fadd a (fneg b)"

fun fmul :: "pyfloat \<Rightarrow> pyfloat \<Rightarrow> pyfloat" where
  "fmul NaN b = NaN"
| "fmul a NaN = NaN"
| "fmul (Inf s) (Inf t) = Inf (s \<noteq> t)"
| "fmul (Inf s) (Fin t n) = (if n = 0 then NaN else Inf (s \<noteq> t))"
| "fmul (Fin s m) (Inf t) = (if m = 0 then NaN else Inf (s \<noteq> t))"
| "fmul (Fin s m) (Fin t n) = pack (s \<noteq> t) (m * n)"

text \<open>The quotient of two floats, the divisor not a zero.\<close>

fun fquot :: "pyfloat \<Rightarrow> pyfloat \<Rightarrow> pyfloat" where
  "fquot NaN b = NaN"
| "fquot a NaN = NaN"
| "fquot (Inf s) (Inf t) = NaN"
| "fquot (Inf s) (Fin t n) = Inf (s \<noteq> t)"
| "fquot (Fin s m) (Inf t) = Fin (s \<noteq> t) 0"
| "fquot (Fin s m) (Fin t n) = pack (s \<noteq> t) (m / n)"

text \<open>Python's \<open>a / b\<close> on floats: raises \<open>ZeroDivisionError\<close> when \<open>b\<close> is a zero.\<close>

definition truediv :: "pyfloat \<Rightarrow> pyfloat \<Rightarrow> error + pyfloat" where
  "truediv a b = (if is_zero b then Inl ZeroDivisionError else Inr (fquot a b))"

text \<open>\<open>a < b\<close> on floats: false when either is a NaN; the two zeros are equal.\<close>

fun fless :: "pyfloat \<Rightarrow> pyfloat \<Rightarrow> bool" where
  "fless NaN b \<longleftrightarrow> False"
| "fless a NaN \<longleftrightarrow> False"
| "fless (Inf s) (Inf t) \<longleftrightarrow> s \<and> \<not> t"
| "fless (Inf s) (Fin t n) \<longleftrightarrow> s"
| "fless (Fin s m) (Inf t) \<longleftrightarrow> \<not> t"
| "fless (Fin s m) (Fin t n) \<longleftrightarrow> fval (Fin s m) < fval (Fin t n)"

text \<open>\<open>a <= b\<close> on floats.\<close>

fun fle :: "pyfloat \<Rightarrow> pyfloat \<Rightarrow> bool" where
  "fle NaN b \<longleftrightarrow> False"
| "fle a NaN \<longleftrightarrow> False"
| "fle a b \<longleftrightarrow> \<not> fless b a"

text \<open>
  The conversion of an \<open>int\<close> operand of a float operation: the nearest float, and
  \<open>OverflowError\<close> when that is beyond the largest finite value.
\<close>

definition float_of_int :: "int \<Rightarrow> error + pyfloat" where
  "float_of_int n =
     (let r = rnd \<bar>real_of_int n\<bar>
      in if 2 ^ 1024 \<le> r then Inl OverflowError else Inr (Fin (n < 0) r))"

text \<open>Whether a finite float is an odd integer.\<close>

definition odd_integer :: "pyfloat \<Rightarrow> bool" where
  "odd_integer b \<longleftrightarrow> fval b = of_int \<lfloor>fval b\<rfloor> \<and> odd \<lfloor>fval b\<rfloor>"

text \<open>
  Python's \<open>a ** b\<close> on floats, in the order of the cases of \<open>float_pow\<close>: a zero exponent;
  a NaN; an infinite exponent; an infinite base; a zero base; a negative base, whose
  power is a complex number unless the exponent is an integer (the model reports
  \<open>ComplexResult\<close> and does not follow it further); a base of magnitude \<open>1\<close>; and
  last the rounded power, \<open>OverflowError\<close> when it is beyond the largest finite value.
\<close>

fun float_pow :: "pyfloat \<Rightarrow> pyfloat \<Rightarrow> error + pyfloat" where
  "float_pow a (Fin t n) =
     (if n = 0 then Inr (Fin False 1)
      else case a of
        NaN \<Rightarrow> Inr NaN
      | Inf s \<Rightarrow>
          (if \<not> t then Inr (Inf (s \<and> odd_integer (Fin t n)))
           else Inr (Fin (s \<and> odd_integer (Fin t n)) 0))
      | Fin s m \<Rightarrow>
          (if m = 0 then
             (if t then Inl ZeroDivisionError
              else Inr (Fin (s \<and> odd_integer (Fin t n)) 0))
           else if s \<and> fval (Fin t n) \<noteq> of_int \<lfloor>fval (Fin t n)\<rfloor> then Inl ComplexResult
           else if m = 1 then Inr (Fin (s \<and> odd_integer (Fin t n)) 1)
           else
             (let r = rnd (m powr fval (Fin t n))
              in if 2 ^ 1024 \<le> r then Inl OverflowError
                 else Inr (Fin (s \<and> odd_integer (Fin t n)) r))))"
| "float_pow a NaN =
     (case a of Fin s m \<Rightarrow> if \<not> s \<and> m = 1 then Inr (Fin False 1) else Inr NaN
      | _ \<Rightarrow> Inr NaN)"
| "float_pow a (Inf t) =
     (case a of
        NaN \<Rightarrow> Inr NaN
      | Inf s \<Rightarrow> if t then Inr (Fin False 0) else Inr (Inf False)
      | Fin s m \<Rightarrow>
          if m = 1 then Inr (Fin False 1)
          else if (\<not> t) = (1 < m) then Inr (Inf False)
          else Inr (Fin False 0))"

text \<open>\<open>math.ceil\<close> of a float.\<close>

fun py_ceil :: "pyfloat \<Rightarrow> error + int" where
  "py_ceil (Fin s m) = Inr \<lceil>fval (Fin s m)\<rceil>"
| "py_ceil (Inf s) = Inl OverflowError"
| "py_ceil NaN = Inl ValueError"

text \<open>Operations with one \<open>int\<close> operand: the \<open>int\<close> is converted first.\<close>

definition fmul_fi :: "pyfloat \<Rightarrow> int \<Rightarrow> error + pyfloat" where
  "fmul_fi a n = bind_err (float_of_int n) (\<lambda>b. Inr (fmul a b))"

definition fmul_if :: "int \<Rightarrow> pyfloat \<Rightarrow> error + pyfloat" where
  "fmul_if n b = bind_err (float_of_int n) (\<lambda>a. Inr (fmul a b))"

definition fadd_fi :: "pyfloat \<Rightarrow> int \<Rightarrow> error + pyfloat" where
  "fadd_fi a n = bind_err (float_of_int n) (\<lambda>b. Inr (fadd a b))"

definition truediv_fi :: "pyfloat \<Rightarrow> int \<Rightarrow> error + pyfloat" where
  "truediv_fi a n = bind_err (float_of_int n) (\<lambda>b. truediv a b)"

definition truediv_if :: "int \<Rightarrow> pyfloat \<Rightarrow> error + pyfloat" where
  "truediv_if n b = bind_err (float_of_int n) (\<lambda>a. truediv a b)"

definition pow_fi :: "pyfloat \<Rightarrow> int \<Rightarrow> error + pyfloat" where
  "pow_fi a n = bind_err (float_of_int n) (\<lambda>b. float_pow a b)"

text \<open>\<open>assert c\<close>.\<close>

definition py_assert :: "bool \<Rightarrow> error + unit" where
  "py_assert c = (if c then Inr () else Inl AssertionError)"

text \<open>A sequence of \<open>assert\<close> statements: the first one that fails raises.\<close>

fun assert_all :: "bool list \<Rightarrow> error + unit" where
  "assert_all [] = Inr ()"
| "assert_all (c # cs) = bind_err (py_assert c) (\<lambda>_. assert_all cs)"

text \<open>
  \<open>for i in range(n): body\<close>, where the body does not read \<open>i\<close>: the body runs \<open>n\<close>
  times on the state, and an exception in the body leaves the loop.
\<close>

fun for_range :: "nat \<Rightarrow> ('s \<Rightarrow> error + 's) \<Rightarrow> 's \<Rightarrow> error + 's" where
  "for_range 0 body s = Inr s"
| "for_range (Suc n) body s = bind_err (body s) (for_range n body)"

subsection \<open>Constants (lines 54 to 57)\<close>

definition BLOCKSIZE :: int where
  "BLOCKSIZE = 4000000"

text \<open>\<open>144*365.25\<close>, which is \<open>52596.0\<close> without rounding.\<close>

definition BLOCKS_PER_YEAR :: pyfloat where
  "BLOCKS_PER_YEAR = Fin False 52596"

definition SATOSHIS_PER_BITCOIN :: int where
  "SATOSHIS_PER_BITCOIN = 100000000"

definition LOG_PRECISION :: nat where
  "LOG_PRECISION = 50"

subsection \<open>The feerate model (lines 59 to 63)\<close>

text \<open>\<open>Fe / (1.0 - x)**Ex\<close>.\<close>

definition calc_feerate :: "pyfloat \<Rightarrow> pyfloat \<Rightarrow> pyfloat \<Rightarrow> error + pyfloat" where
  "calc_feerate fe ex x = bind_err (float_pow (fsub (Fin False 1) x) ex) (truediv fe)"

text \<open>\<open>Fe * Ex / (1.0 - x)**(Ex+1)\<close>.\<close>

definition calc_feerate_derivative :: "pyfloat \<Rightarrow> pyfloat \<Rightarrow> pyfloat \<Rightarrow> error + pyfloat" where
  "calc_feerate_derivative fe ex x =
     (let t = fmul fe ex; b = fsub (Fin False 1) x
      in bind_err (fadd_fi ex 1) (\<lambda>e1.
         bind_err (float_pow b e1) (truediv t)))"

subsection \<open>Parameters, local variables and the output row\<close>

text \<open>
  The fields carry the names of the CSV headers and of the locals of \<open>analyze_tt\<close>;
  the exponent \<open>Ex\<close> is written \<open>Ex'\<close>.
\<close>

record static_params =
  Ac :: int
  Ro :: int
  AS :: int
  MS :: int

record dynamic_params =
  Fe :: pyfloat
  Ex' :: pyfloat
  Pr :: pyfloat
  Le :: int
  Va :: int
  Co :: pyfloat

text \<open>An entry of the log: which expression was evaluated, and at which \<open>x\<close>.\<close>

datatype event = FeerateCall pyfloat | DerivativeCall pyfloat | CostEval pyfloat

text \<open>
  \<open>x_var\<close> is the local \<open>x\<close>, which is unbound until the first loop body has run.
  \<open>evals\<close> is the log.
\<close>

record frame =
  low_x :: pyfloat
  high_x :: pyfloat
  x_var :: "pyfloat option"
  evals :: "event list"

text \<open>The nine computed columns, under the names of the output header (line 144).\<close>

record metrics =
  FractionTTLeaves :: pyfloat
  SecurityDelayBlocks :: int
  SecurityDelayYears :: pyfloat
  CapitalCost :: pyfloat
  CapitalEfficiency :: pyfloat
  OnchainFee :: pyfloat
  OnchainFeeFraction :: pyfloat
  ExpectedOnchainFee :: pyfloat
  ExpectedOverheadFraction :: pyfloat

datatype cell = CFloat pyfloat | CInt int

subsection \<open>analyze\_tt (lines 65 to 117)\<close>

text \<open>
  Lines 76 to 85. An \<open>int\<close> is compared with \<open>0.0\<close> by value, without conversion.
\<close>

definition check_params :: "static_params \<Rightarrow> dynamic_params \<Rightarrow> error + unit" where
  "check_params sp dp = assert_all
     [0 \<le> Ac sp, 0 \<le> Ro sp, 0 \<le> AS sp, AS sp \<le> MS sp,
      fle (Fin False 0) (Fe dp), fless (Fin False 0) (Ex' dp),
      fle (Fin False 0) (Pr dp) \<and> fle (Pr dp) (Fin False 1),
      0 \<le> Le dp, 0 \<le> Va dp,
      fle (Fin False 0) (Co dp) \<and> fle (Co dp) (Fin False 1)]"

text \<open>Line 86: \<open>cuf = 2.0 * Va * SATOSHIS_PER_BITCOIN / (3.0 * Le)\<close>.\<close>

definition calc_cuf :: "dynamic_params \<Rightarrow> error + pyfloat" where
  "calc_cuf dp =
     bind_err (fmul_fi (Fin False 2) (Va dp)) (\<lambda>t1.
     bind_err (fmul_fi t1 SATOSHIS_PER_BITCOIN) (\<lambda>t2.
     bind_err (fmul_fi (Fin False 3) (Le dp)) (\<lambda>t3.
     truediv t2 t3)))"

text \<open>Line 87: \<open>assert cuf > MS*Fe\<close>.\<close>

definition check_funds :: "static_params \<Rightarrow> dynamic_params \<Rightarrow> pyfloat \<Rightarrow> error + unit" where
  "check_funds sp dp cuf =
     bind_err (fmul_if (MS sp) (Fe dp)) (\<lambda>t. py_assert (fless t cuf))"

text \<open>Lines 88 and 89, with an empty log.\<close>

definition init_frame :: frame where
  "init_frame = \<lparr>low_x = Fin False 0, high_x = Fin False 1, x_var = None, evals = []\<rparr>"

text \<open>Lines 91 and 100: \<open>x = (low_x + high_x) / 2.0\<close>.\<close>

definition midpoint :: "frame \<Rightarrow> error + pyfloat" where
  "midpoint s = truediv (fadd (low_x s) (high_x s)) (Fin False 2)"

text \<open>Line 92: \<open>MS*calc_feerate(Fe, Ex, x)\<close>.\<close>

definition calc_max_fee :: "static_params \<Rightarrow> dynamic_params \<Rightarrow> pyfloat \<Rightarrow> error + pyfloat" where
  "calc_max_fee sp dp x =
     bind_err (calc_feerate (Fe dp) (Ex' dp) x) (\<lambda>f. fmul_if (MS sp) f)"

text \<open>Lines 91 to 96: the body of the first loop.\<close>

definition stage1_body ::
  "static_params \<Rightarrow> dynamic_params \<Rightarrow> pyfloat \<Rightarrow> frame \<Rightarrow> error + frame" where
  "stage1_body sp dp cuf s =
     bind_err (midpoint s) (\<lambda>x.
     bind_err (calc_max_fee sp dp x) (\<lambda>max_fee.
       let s' = s\<lparr>x_var := Some x, evals := evals s @ [FeerateCall x]\<rparr>
       in Inr (if fless cuf max_fee then s'\<lparr>high_x := x\<rparr> else s'\<lparr>low_x := x\<rparr>)))"

text \<open>Lines 90 to 96.\<close>

definition feasibility_search ::
  "static_params \<Rightarrow> dynamic_params \<Rightarrow> pyfloat \<Rightarrow> error + frame" where
  "feasibility_search sp dp cuf = for_range LOG_PRECISION (stage1_body sp dp cuf) init_frame"

text \<open>Lines 97 and 98: \<open>low_x = 0.0; high_x = x\<close>.\<close>

definition stage2_init :: "frame \<Rightarrow> error + frame" where
  "stage2_init s =
     (case x_var s of
        None \<Rightarrow> Inl NameError
      | Some x \<Rightarrow> Inr (s\<lparr>low_x := Fin False 0, high_x := x\<rparr>))"

text \<open>
  Line 101: \<open>Va*SATOSHIS_PER_BITCOIN*Co*AS/(BLOCKS_PER_YEAR*BLOCKSIZE*x) +
  Pr*AS*calc_feerate(Fe, Ex, x)\<close>, the operands evaluated from left to right.
\<close>

definition calc_exp_cost :: "static_params \<Rightarrow> dynamic_params \<Rightarrow> pyfloat \<Rightarrow> error + pyfloat" where
  "calc_exp_cost sp dp x =
     bind_err (fmul_if (Va dp * SATOSHIS_PER_BITCOIN) (Co dp)) (\<lambda>t1.
     bind_err (fmul_fi t1 (AS sp)) (\<lambda>t2.
     bind_err (fmul_fi BLOCKS_PER_YEAR BLOCKSIZE) (\<lambda>d1.
     bind_err (truediv t2 (fmul d1 x)) (\<lambda>c.
     bind_err (fmul_fi (Pr dp) (AS sp)) (\<lambda>p.
     bind_err (calc_feerate (Fe dp) (Ex' dp) x) (\<lambda>f.
     Inr (fadd c (fmul p f))))))))"

text \<open>
  Line 102: \<open>-Va*SATOSHIS_PER_BITCOIN*Co*AS/(BLOCKS_PER_YEAR*BLOCKSIZE*(x**2)) +
  Pr*AS*calc_feerate_derivative(Fe, Ex, x)\<close>.
\<close>

definition calc_exp_cost_deriv ::
  "static_params \<Rightarrow> dynamic_params \<Rightarrow> pyfloat \<Rightarrow> error + pyfloat" where
  "calc_exp_cost_deriv sp dp x =
     bind_err (fmul_if (- Va dp * SATOSHIS_PER_BITCOIN) (Co dp)) (\<lambda>t1.
     bind_err (fmul_fi t1 (AS sp)) (\<lambda>t2.
     bind_err (fmul_fi BLOCKS_PER_YEAR BLOCKSIZE) (\<lambda>d1.
     bind_err (pow_fi x 2) (\<lambda>x2.
     bind_err (truediv t2 (fmul d1 x2)) (\<lambda>c.
     bind_err (fmul_fi (Pr dp) (AS sp)) (\<lambda>p.
     bind_err (calc_feerate_derivative (Fe dp) (Ex' dp) x) (\<lambda>g.
     Inr (fadd c (fmul p g)))))))))"

text \<open>
  Lines 100 to 106: the body of the second loop. \<open>exp_cost\<close> is computed although no later
  statement reads it, so what it can raise is part of the model.
\<close>

definition stage2_body :: "static_params \<Rightarrow> dynamic_params \<Rightarrow> frame \<Rightarrow> error + frame" where
  "stage2_body sp dp s =
     bind_err (midpoint s) (\<lambda>x.
     bind_err (calc_exp_cost sp dp x) (\<lambda>exp_cost.
     bind_err (calc_exp_cost_deriv sp dp x) (\<lambda>exp_cost_deriv.
       let s' = s\<lparr>x_var := Some x,
                  evals := evals s @ [FeerateCall x, CostEval x, DerivativeCall x]\<rparr>
       in Inr (if fless (Fin False 0) exp_cost_deriv
               then s'\<lparr>high_x := x\<rparr> else s'\<lparr>low_x := x\<rparr>))))"

text \<open>Lines 97 to 106.\<close>

definition cost_search :: "static_params \<Rightarrow> dynamic_params \<Rightarrow> frame \<Rightarrow> error + frame" where
  "cost_search sp dp s =
     bind_err (stage2_init s) (for_range LOG_PRECISION (stage2_body sp dp))"

text \<open>Lines 107 to 116. \<open>expected_cost\<close> (line 114) is a sum that nothing reads.\<close>

definition derive_metrics ::
  "static_params \<Rightarrow> dynamic_params \<Rightarrow> pyfloat \<Rightarrow> frame \<Rightarrow> error + (metrics \<times> frame)" where
  "derive_metrics sp dp cuf s =
     (case x_var s of
        None \<Rightarrow> Inl NameError
      | Some x \<Rightarrow>
      bind_err (calc_max_fee sp dp x) (\<lambda>max_fee.
      bind_err (truediv max_fee cuf) (\<lambda>onchain_fee_fraction.
      bind_err (calc_feerate (Fe dp) (Ex' dp) x) (\<lambda>f2.
      bind_err (fmul_if (AS sp) f2) (\<lambda>ave_fee.
      let expected_fee = fmul (Pr dp) ave_fee in
      bind_err (fmul_if BLOCKSIZE x) (\<lambda>d.
      bind_err (truediv_if (Le dp * AS sp) d) (\<lambda>q.
      bind_err (py_ceil q) (\<lambda>security_delay_blocks.
      bind_err (float_of_int security_delay_blocks) (\<lambda>fsdb.
      bind_err (truediv fsdb BLOCKS_PER_YEAR) (\<lambda>security_delay_years.
      bind_err (fmul_if (Va dp * SATOSHIS_PER_BITCOIN) (Co dp)) (\<lambda>t1.
      bind_err (fmul_fi t1 security_delay_blocks) (\<lambda>t2.
      bind_err (fmul_fi BLOCKS_PER_YEAR (Le dp)) (\<lambda>d2.
      bind_err (truediv t2 d2) (\<lambda>capital_cost.
      let expected_cost = fadd capital_cost expected_fee in
      bind_err (truediv (Fin False 2) (Fin False 3)) (\<lambda>two_thirds.
      bind_err (fmul_fi two_thirds (Ac sp)) (\<lambda>t3.
      bind_err (truediv_fi t3 (Ac sp + Ro sp + security_delay_blocks))
        (\<lambda>capital_efficiency.
      bind_err (truediv (fadd capital_cost expected_fee) cuf) (\<lambda>expected_overhead_fraction.
      Inr (\<lparr>FractionTTLeaves = x,
             SecurityDelayBlocks = security_delay_blocks,
             SecurityDelayYears = security_delay_years,
             CapitalCost = capital_cost,
             CapitalEfficiency = capital_efficiency,
             OnchainFee = max_fee,
             OnchainFeeFraction = onchain_fee_fraction,
             ExpectedOnchainFee = expected_fee,
             ExpectedOverheadFraction = expected_overhead_fraction\<rparr>,
           s\<lparr>evals := evals s @ [FeerateCall x, FeerateCall x]\<rparr>)))))))))))))))))))"

text \<open>Line 117: the list handed to \<open>out_csv.writerow\<close>.\<close>

definition output_row :: "dynamic_params \<Rightarrow> metrics \<Rightarrow> cell list" where
  "output_row dp m =
     [CFloat (Fe dp), CFloat (Ex' dp), CFloat (Pr dp), CInt (Le dp), CInt (Va dp),
      CFloat (Co dp),
      CFloat (FractionTTLeaves m), CInt (SecurityDelayBlocks m),
      CFloat (SecurityDelayYears m), CFloat (CapitalCost m), CFloat (CapitalEfficiency m),
      CFloat (OnchainFee m), CFloat (OnchainFeeFraction m), CFloat (ExpectedOnchainFee m),
      CFloat (ExpectedOverheadFraction m)]"

text \<open>Lines 76 to 87: the assertions and \<open>cuf\<close>.\<close>

definition preconditions :: "static_params \<Rightarrow> dynamic_params \<Rightarrow> error + pyfloat" where
  "preconditions sp dp =
     bind_err (check_params sp dp) (\<lambda>_.
     bind_err (calc_cuf dp) (\<lambda>cuf.
     bind_err (check_funds sp dp cuf) (\<lambda>_. Inr cuf)))"

text \<open>Lines 76 to 106: the assertions, \<open>cuf\<close> and the two searches.\<close>

definition searches :: "static_params \<Rightarrow> dynamic_params \<Rightarrow> error + (pyfloat \<times> frame)" where
  "searches sp dp =
     bind_err (preconditions sp dp) (\<lambda>cuf.
     bind_err (feasibility_search sp dp cuf) (\<lambda>s1.
     bind_err (cost_search sp dp s1) (\<lambda>s2. Inr (cuf, s2))))"

text \<open>Lines 76 to 116: everything \<open>analyze_tt\<close> computes before it writes.\<close>

definition compute_tt :: "static_params \<Rightarrow> dynamic_params \<Rightarrow> error + (metrics \<times> frame)" where
  "compute_tt sp dp =
     bind_err (searches sp dp) (\<lambda>(cuf, s2). derive_metrics sp dp cuf s2)"

text \<open>
  \<open>analyze_tt\<close>: the CSV writer is the list of rows written so far, and the call
  appends one row to it, or raises and writes nothing.
\<close>

definition analyze_tt ::
  "static_params \<Rightarrow> dynamic_params \<Rightarrow> cell list list \<Rightarrow> error + cell list list" where
  "analyze_tt sp dp out_csv =
     bind_err (compute_tt sp dp) (\<lambda>(m, s). Inr (out_csv @ [output_row dp m]))"

subsection \<open>Example inputs\<close>

text \<open>
  The end-to-end example of the specification: \<open>Ac=4320, Ro=1008, AS=150, MS=200\<close> and
  \<open>Fe=10, Ex=2.0, Pr=0.3, Le=1000, Va=10, Co=0.05\<close>, with \<open>0.3\<close> and \<open>0.05\<close> as the
  floats that \<open>float("0.3")\<close> and \<open>float("0.05")\<close> return.
\<close>

definition example_static :: static_params where
  "example_static = \<lparr>Ac = 4320, Ro = 1008, AS = 150, MS = 200\<rparr>"

definition example_dynamic :: dynamic_params where
  "example_dynamic =
     \<lparr>Fe = Fin False 10, Ex' = Fin False 2, Pr = Fin False (5404319552844595 / 2 ^ 54),
      Le = 1000, Va = 10, Co = Fin False (3602879701896397 / 2 ^ 56)\<rparr>"

section \<open>The specification's side\<close>

subsection \<open>Preconditions\<close>

text \<open>The parameter ranges of the data model.\<close>

definition range_invariants :: "static_params \<Rightarrow> dynamic_params \<Rightarrow> bool" where
  "range_invariants sp dp \<longleftrightarrow>
     0 \<le> Ac sp \<and> 0 \<le> Ro sp \<and> 0 \<le> AS sp \<and> AS sp \<le> MS sp \<and>
     fle (Fin False 0) (Fe dp) \<and> fless (Fin False 0) (Ex' dp) \<and>
     fle (Fin False 0) (Pr dp) \<and> fle (Pr dp) (Fin False 1) \<and>
     0 \<le> Le dp \<and> 0 \<le> Va dp \<and>
     fle (Fin False 0) (Co dp) \<and> fle (Co dp) (Fin False 1)"

text \<open>
  The feasibility invariant over the reals, for a finite \<open>Fe\<close> and a nonzero leaf count:
  \<open>(2/3) * totalValue_in_satoshis / leafCount\<close> exceeds \<open>maxTxSize * baseFeerate\<close>.
\<close>

definition real_feasibility :: "static_params \<Rightarrow> dynamic_params \<Rightarrow> bool" where
  "real_feasibility sp dp \<longleftrightarrow>
     Le dp \<noteq> 0 \<and>
     real_of_int (MS sp) * fval (Fe dp)
       < (2 / 3) * real_of_int (Va dp * SATOSHIS_PER_BITCOIN) / real_of_int (Le dp)"

text \<open>The scenario parameters hold values that a binary64 can hold.\<close>

definition wf_dynamic :: "dynamic_params \<Rightarrow> bool" where
  "wf_dynamic dp \<longleftrightarrow>
     is_double (Fe dp) \<and> is_double (Ex' dp) \<and> is_double (Pr dp) \<and> is_double (Co dp)"

subsection \<open>The feasibility search\<close>

text \<open>
  The fee constraint at \<open>x\<close>, as the first loop evaluates it: \<open>MS*calc_feerate(Fe, Ex, x)\<close>
  has a value, and the test \<open>max_fee > cuf\<close> of line 93 is false (\<open>fee_within\<close>) or true
  (\<open>fee_exceeds\<close>).
\<close>

definition fee_within :: "static_params \<Rightarrow> dynamic_params \<Rightarrow> pyfloat \<Rightarrow> pyfloat \<Rightarrow> bool" where
  "fee_within sp dp cuf x =
     (case calc_max_fee sp dp x of Inl e \<Rightarrow> False | Inr max_fee \<Rightarrow> \<not> fless cuf max_fee)"

definition fee_exceeds :: "static_params \<Rightarrow> dynamic_params \<Rightarrow> pyfloat \<Rightarrow> pyfloat \<Rightarrow> bool" where
  "fee_exceeds sp dp cuf x =
     (case calc_max_fee sp dp x of Inl e \<Rightarrow> False | Inr max_fee \<Rightarrow> fless cuf max_fee)"

text \<open>
  The invariant of the first loop after \<open>k\<close> iterations: the bounds are the ends of one of
  the \<open>2^k\<close> intervals of width \<open>2^-k\<close> that divide \<open>[0,1]\<close>; the lower bound is within the
  fee constraint; the upper bound is \<open>1.0\<close> or exceeds it; and \<open>x\<close>, once bound, is the bound
  that was last assigned.
\<close>

definition stage1_inv ::
  "static_params \<Rightarrow> dynamic_params \<Rightarrow> pyfloat \<Rightarrow> nat \<Rightarrow> int \<Rightarrow> frame \<Rightarrow> bool" where
  "stage1_inv sp dp cuf k a s \<longleftrightarrow>
     0 \<le> a \<and> a < 2 ^ k \<and>
     low_x s = Fin False (real_of_int a / 2 ^ k) \<and>
     high_x s = Fin False (real_of_int (a + 1) / 2 ^ k) \<and>
     fee_within sp dp cuf (low_x s) \<and>
     (a + 1 = 2 ^ k \<or> fee_exceeds sp dp cuf (high_x s)) \<and>
     (0 < k \<longrightarrow> x_var s = Some (low_x s) \<or> x_var s = Some (high_x s))"

section \<open>Properties\<close>

lemma powi_neg_nat: "0 \<le> n \<Longrightarrow> (2::real) powi (- n) = 1 / 2 ^ nat n"
  by (simp add: power_int_minus field_simps power_int_def)

lemma ilog2_bounds:
  assumes "0 < m"
  shows "2 powi (ilog2 m) \<le> m \<and> m < 2 powi (ilog2 m + 1)"
proof (cases "1 \<le> m")
  case True
  let ?n = "\<lfloor>m\<rfloor>"
  from True have n: "0 < ?n" by simp
  from bitlen_bounds [OF n] have b: "2 ^ nat (bitlen ?n - 1) \<le> ?n" "?n < 2 ^ nat (bitlen ?n)"
    by simp_all
  from n have b1: "1 \<le> bitlen ?n" by (simp add: bitlen_alt_def)
  have "real_of_int (2 ^ nat (bitlen ?n - 1)) \<le> real_of_int ?n" using b(1) by linarith
  also have "\<dots> \<le> m" by simp
  finally have lo: "2 powi (bitlen ?n - 1) \<le> m"
    using b1 by (simp add: power_int_def)
  have "?n + 1 \<le> 2 ^ nat (bitlen ?n)" using b(2) by simp
  then have "real_of_int (?n + 1) \<le> real_of_int (2 ^ nat (bitlen ?n))" by linarith
  moreover have "m < real_of_int (?n + 1)" by linarith
  ultimately have "m < real_of_int (2 ^ nat (bitlen ?n))" by linarith
  then have hi: "m < 2 powi (bitlen ?n)"
    using b1 by (simp add: power_int_def)
  from lo hi True show ?thesis by (simp add: ilog2_def)
next
  case False
  let ?z = "1 / m"
  let ?k = "\<lceil>?z\<rceil> - 1"
  from False assms have z: "1 < ?z" by simp
  then have k: "0 < ?k" by linarith
  from bitlen_bounds [OF k] have b: "2 ^ nat (bitlen ?k - 1) \<le> ?k" "?k < 2 ^ nat (bitlen ?k)"
    by simp_all
  from k have b1: "1 \<le> bitlen ?k" by (simp add: bitlen_alt_def)
  have kz: "real_of_int ?k < ?z" "?z \<le> real_of_int ?k + 1" by linarith+
  have "?k + 1 \<le> 2 ^ nat (bitlen ?k)" using b(2) by simp
  then have "real_of_int (?k + 1) \<le> real_of_int (2 ^ nat (bitlen ?k))" by linarith
  moreover have "?z \<le> real_of_int (?k + 1)" using kz(2) by simp
  ultimately have "?z \<le> real_of_int (2 ^ nat (bitlen ?k))" by linarith
  then have "?z \<le> 2 ^ nat (bitlen ?k)" by simp
  then have "1 \<le> m * 2 ^ nat (bitlen ?k)" using assms by (simp add: field_simps)
  then have "1 / 2 ^ nat (bitlen ?k) \<le> m" by (simp add: field_simps)
  moreover have "(2::real) powi (- bitlen ?k) = 1 / 2 ^ nat (bitlen ?k)"
    using b1 by (intro powi_neg_nat) simp
  ultimately have lo: "2 powi (- bitlen ?k) \<le> m" by simp
  have "real_of_int (2 ^ nat (bitlen ?k - 1)) \<le> real_of_int ?k" using b(1) by linarith
  with kz(1) have "real_of_int (2 ^ nat (bitlen ?k - 1)) < ?z" by linarith
  then have "2 ^ nat (bitlen ?k - 1) < ?z" by simp
  then have "m * 2 ^ nat (bitlen ?k - 1) < 1" using assms by (simp add: field_simps)
  then have "m < 1 / 2 ^ nat (bitlen ?k - 1)" by (simp add: field_simps)
  moreover have "(2::real) powi (- (bitlen ?k - 1)) = 1 / 2 ^ nat (bitlen ?k - 1)"
    using b1 by (intro powi_neg_nat) simp
  moreover have "- bitlen ?k + 1 = - (bitlen ?k - 1)" by simp
  ultimately have hi: "m < 2 powi (- bitlen ?k + 1)" by simp
  from lo hi False show ?thesis by (simp add: ilog2_def)
qed

lemma pow2_less_cancel: "(2::real) powi a < 2 powi b \<Longrightarrow> a < b"
  using power_int_increasing [of b a "2::real"] by (cases "a < b") simp_all

lemma pow2_le_cancel: "(2::real) powi a \<le> 2 powi b \<Longrightarrow> a \<le> b"
  using power_int_strict_increasing [of b a "2::real"] by (cases "a \<le> b") simp_all

lemma ilog2_unique:
  assumes "2 powi e \<le> m" and "m < 2 powi (e + 1)"
  shows "ilog2 m = e"
proof -
  have m: "0 < m" using assms(1) by (smt (verit) zero_less_power_int)
  from ilog2_bounds [OF m] have b: "2 powi (ilog2 m) \<le> m" "m < 2 powi (ilog2 m + 1)" by simp_all
  have "(2::real) powi e < 2 powi (ilog2 m + 1)" using assms(1) b(2) by simp
  then have 1: "e < ilog2 m + 1" by (rule pow2_less_cancel)
  have "(2::real) powi (ilog2 m) < 2 powi (e + 1)" using assms(2) b(1) by simp
  then have 2: "ilog2 m < e + 1" by (rule pow2_less_cancel)
  from 1 2 show ?thesis by simp
qed


lemma round_even_of_int [simp]: "round_even (of_int k) = k"
  by (simp add: round_even_def)

lemma round_even_floor: "\<lfloor>r\<rfloor> \<le> round_even r"
  by (simp add: round_even_def Let_def)

lemma round_even_floor1: "round_even r \<le> \<lfloor>r\<rfloor> + 1"
  by (simp add: round_even_def Let_def)

lemma round_even_ceiling: "round_even r \<le> \<lceil>r\<rceil>"
proof (cases "r = of_int \<lfloor>r\<rfloor>")
  case True
  then have "round_even r = \<lfloor>r\<rfloor>"
    by (metis round_even_of_int)
  then show ?thesis by (simp add: floor_le_ceiling)
next
  case False
  then have "\<lceil>r\<rceil> = \<lfloor>r\<rfloor> + 1" by (simp add: ceiling_altdef)
  with round_even_floor1 [of r] show ?thesis by simp
qed

lemma round_even_error: "\<bar>of_int (round_even r) - r\<bar> \<le> 1 / 2"
proof -
  have "of_int \<lfloor>r\<rfloor> \<le> r" "r < of_int \<lfloor>r\<rfloor> + 1" by linarith+
  then show ?thesis
    by (auto simp add: round_even_def Let_def)
qed

lemma round_even_mono:
  assumes "r \<le> s"
  shows "round_even r \<le> round_even s"
proof (cases "\<lfloor>r\<rfloor> < \<lfloor>s\<rfloor>")
  case True
  have "round_even r \<le> \<lfloor>r\<rfloor> + 1" by (rule round_even_floor1)
  also have "\<dots> \<le> \<lfloor>s\<rfloor>" using True by simp
  also have "\<dots> \<le> round_even s" by (rule round_even_floor)
  finally show ?thesis .
next
  case False
  moreover from assms have "\<lfloor>r\<rfloor> \<le> \<lfloor>s\<rfloor>" by (rule floor_mono)
  ultimately have eq: "\<lfloor>r\<rfloor> = \<lfloor>s\<rfloor>" by simp
  from assms have "r - of_int \<lfloor>s\<rfloor> \<le> s - of_int \<lfloor>s\<rfloor>" by simp
  then show ?thesis
    by (auto simp add: round_even_def Let_def eq)
qed

lemma round_even_small:
  assumes "0 \<le> r" and "r \<le> 1 / 2"
  shows "round_even r = 0"
proof -
  from assms have "\<lfloor>r\<rfloor> = 0" by linarith
  with assms show ?thesis by (simp add: round_even_def Let_def)
qed

lemma round_even_ge_one:
  assumes "1 / 2 < r"
  shows "1 \<le> round_even r"
proof (cases "1 \<le> r")
  case True
  then have "1 \<le> \<lfloor>r\<rfloor>" by linarith
  with round_even_floor [of r] show ?thesis by linarith
next
  case False
  with assms have "\<lfloor>r\<rfloor> = 0" by linarith
  with assms show ?thesis by (simp add: round_even_def Let_def)
qed

lemma round_even_nonneg: "0 \<le> r \<Longrightarrow> 0 \<le> round_even r"
  using round_even_mono [of 0 r] round_even_of_int [of 0] by simp

lemma expo_ge: "- 1022 \<le> expo m"
proof (cases "m < 2 powi (- 1022)")
  case True
  then show ?thesis by (simp add: expo_def)
next
  case False
  then have lo: "2 powi (- 1022) \<le> m" by simp
  then have "0 < m" by (smt (verit) zero_less_power_int)
  from ilog2_bounds [OF this] lo have "(2::real) powi (- 1022) < 2 powi (ilog2 m + 1)" by simp
  then have "- 1022 < ilog2 m + 1" by (rule pow2_less_cancel)
  with False show ?thesis by (simp add: expo_def)
qed

lemma expo_upper: "0 \<le> m \<Longrightarrow> m < 2 powi (expo m + 1)"
proof (cases "m < 2 powi (- 1022)")
  case True
  have "(2::real) powi (- 1022) \<le> 2 powi (- 1022 + 1)"
    by (intro power_int_increasing) simp_all
  with True show ?thesis by (simp add: expo_def)
next
  case False
  then have lo: "2 powi (- 1022) \<le> m" by simp
  then have "0 < m" by (smt (verit) zero_less_power_int)
  from ilog2_bounds [OF this] False show ?thesis by (simp add: expo_def)
qed

lemma expo_lower: "2 powi (- 1022) \<le> m \<Longrightarrow> 2 powi (expo m) \<le> m"
proof -
  assume lo: "2 powi (- 1022) \<le> m"
  then have "0 < m" by (smt (verit) zero_less_power_int)
  from ilog2_bounds [OF this] lo show ?thesis by (simp add: expo_def)
qed

lemma expo_normal:
  assumes "2 powi e \<le> m" and "m < 2 powi (e + 1)" and "- 1022 \<le> e"
  shows "expo m = e"
proof -
  have "(2::real) powi (- 1022) \<le> 2 powi e"
    using assms(3) by (intro power_int_increasing) simp_all
  with assms(1) have "\<not> m < 2 powi (- 1022)" by simp
  then show ?thesis by (simp add: expo_def ilog2_unique [OF assms(1,2)])
qed

lemma expo_subnormal: "m < 2 powi (- 1022) \<Longrightarrow> expo m = - 1022"
  by (simp add: expo_def)

lemma expo_mono:
  assumes "0 \<le> a" and "a \<le> b"
  shows "expo a \<le> expo b"
proof (cases "a < 2 powi (- 1022)")
  case True
  then show ?thesis using expo_ge [of b] by (simp add: expo_def)
next
  case False
  then have la: "2 powi (- 1022) \<le> a" by simp
  with assms have lb: "2 powi (- 1022) \<le> b" by simp
  from assms have "0 \<le> b" by simp
  from expo_lower [OF la] expo_upper [OF this] assms(2)
  have "(2::real) powi (expo a) < 2 powi (expo b + 1)" by simp
  then have "expo a < expo b + 1" by (rule pow2_less_cancel)
  then show ?thesis by simp
qed

lemma ulp_pos [simp]: "0 < ulp m"
  by (simp add: ulp_def)

lemma ulp_nonneg [simp]: "0 \<le> ulp m"
  using ulp_pos [of m] by (rule less_imp_le)

lemma ulp_nonzero [simp]: "ulp m \<noteq> 0"
  by (metis ulp_pos less_irrefl)

lemma ulp_times: "ulp m * 2 ^ 52 = 2 powi (expo m)"
proof -
  have "(2::real) powi (expo m) = 2 powi ((expo m - 52) + 52)"
    by (rule arg_cong [where f = "power_int 2"]) simp
  also have "\<dots> = 2 powi (expo m - 52) * 2 powi 52" by (rule power_int_add) simp
  also have "(2::real) powi 52 = 2 ^ 52" by (rule power_int_numeral)
  finally show ?thesis by (simp only: ulp_def)
qed

lemma ulp_times53: "ulp m * 2 ^ 53 = 2 powi (expo m + 1)"
proof -
  have "(2::real) powi (expo m + 1) = 2 powi ((expo m - 52) + 53)"
    by (rule arg_cong [where f = "power_int 2"]) simp
  also have "\<dots> = 2 powi (expo m - 52) * 2 powi 53" by (rule power_int_add) simp
  also have "(2::real) powi 53 = 2 ^ 53" by (rule power_int_numeral)
  finally show ?thesis by (simp only: ulp_def)
qed

lemma ulp_scaled_lt: "0 \<le> m \<Longrightarrow> m / ulp m < 2 ^ 53"
proof -
  assume "0 \<le> m"
  then have "m < 2 powi (expo m + 1)" by (rule expo_upper)
  also have "\<dots> = ulp m * 2 ^ 53" by (rule ulp_times53 [symmetric])
  finally have "m < 2 ^ 53 * ulp m" by (simp only: mult.commute)
  then show ?thesis by (simp only: pos_divide_less_eq [OF ulp_pos])
qed

lemma ulp_scaled_ge: "2 powi (- 1022) \<le> m \<Longrightarrow> 2 ^ 52 \<le> m / ulp m"
proof -
  assume "2 powi (- 1022) \<le> m"
  then have "2 powi (expo m) \<le> m" by (rule expo_lower)
  then have "ulp m * 2 ^ 52 \<le> m" by (simp only: ulp_times)
  then have "2 ^ 52 * ulp m \<le> m" by (simp only: mult.commute)
  then show ?thesis by (simp only: pos_le_divide_eq [OF ulp_pos])
qed

lemma round_even_scaled_le:
  assumes "0 \<le> m"
  shows "real_of_int (round_even (m / ulp m)) \<le> 2 ^ 53"
proof -
  from ulp_scaled_lt [OF assms] have "m / ulp m \<le> of_int (2 ^ 53)" by simp
  then have "round_even (m / ulp m) \<le> round_even (of_int (2 ^ 53))"
    by (rule round_even_mono)
  then have "round_even (m / ulp m) \<le> 2 ^ 53" by (simp only: round_even_of_int)
  then show ?thesis by (metis of_int_le_iff of_int_numeral of_int_power)
qed

lemma round_even_scaled_ge:
  assumes "2 powi (- 1022) \<le> m"
  shows "2 ^ 52 \<le> real_of_int (round_even (m / ulp m))"
proof -
  from ulp_scaled_ge [OF assms] have "of_int (2 ^ 52) \<le> m / ulp m" by simp
  then have "round_even (of_int (2 ^ 52)) \<le> round_even (m / ulp m)"
    by (rule round_even_mono)
  then have "2 ^ 52 \<le> round_even (m / ulp m)" by (simp only: round_even_of_int)
  then show ?thesis by (metis of_int_le_iff of_int_numeral of_int_power)
qed

lemma rnd_nonneg:
  assumes "0 \<le> m"
  shows "0 \<le> rnd m"
proof -
  from assms have "0 \<le> m / ulp m" by simp
  then have "0 \<le> round_even (m / ulp m)" by (rule round_even_nonneg)
  then show ?thesis unfolding rnd_def by (intro mult_nonneg_nonneg) simp_all
qed

lemma rnd_zero [simp]: "rnd 0 = 0"
  by (simp add: rnd_def round_even_def)

lemma rnd_error: "\<bar>rnd m - m\<bar> \<le> ulp m / 2"
proof -
  have "\<bar>of_int (round_even (m / ulp m)) - m / ulp m\<bar> * ulp m \<le> 1 / 2 * ulp m"
    by (intro mult_right_mono round_even_error) simp
  moreover have "\<bar>of_int (round_even (m / ulp m)) - m / ulp m\<bar> * ulp m = \<bar>rnd m - m\<bar>"
  proof -
    have "\<bar>of_int (round_even (m / ulp m)) - m / ulp m\<bar> * ulp m
        = \<bar>(of_int (round_even (m / ulp m)) - m / ulp m) * ulp m\<bar>"
      by (simp add: abs_mult)
    also have "(of_int (round_even (m / ulp m)) - m / ulp m) * ulp m = rnd m - m"
      by (simp add: rnd_def field_simps)
    finally show ?thesis .
  qed
  ultimately show ?thesis by simp
qed

lemma rnd_upper:
  assumes "0 \<le> m"
  shows "rnd m \<le> 2 powi (expo m + 1)"
proof -
  have "rnd m \<le> 2 ^ 53 * ulp m"
    unfolding rnd_def by (intro mult_right_mono round_even_scaled_le [OF assms]) simp
  also have "\<dots> = ulp m * 2 ^ 53" by (rule mult.commute)
  also have "\<dots> = 2 powi (expo m + 1)" by (rule ulp_times53)
  finally show ?thesis .
qed

lemma rnd_lower:
  assumes "2 powi (- 1022) \<le> m"
  shows "2 powi (expo m) \<le> rnd m"
proof -
  have "2 powi (expo m) = ulp m * 2 ^ 52" by (rule ulp_times [symmetric])
  also have "\<dots> = 2 ^ 52 * ulp m" by (rule mult.commute)
  also have "\<dots> \<le> rnd m"
    unfolding rnd_def by (intro mult_right_mono round_even_scaled_ge [OF assms]) simp
  finally show ?thesis .
qed

lemma rnd_mono:
  assumes "0 \<le> a" and "a \<le> b"
  shows "rnd a \<le> rnd b"
proof (cases "expo a = expo b")
  case True
  then have u: "ulp a = ulp b" by (simp add: ulp_def)
  from assms(2) have "a / ulp b \<le> b / ulp b" by (intro divide_right_mono) simp_all
  then have "round_even (a / ulp b) \<le> round_even (b / ulp b)" by (rule round_even_mono)
  then have "real_of_int (round_even (a / ulp b)) \<le> real_of_int (round_even (b / ulp b))"
    by linarith
  then show ?thesis
    unfolding rnd_def u by (intro mult_right_mono) simp_all
next
  case False
  with expo_mono [OF assms] have lt: "expo a < expo b" by simp
  with expo_ge [of a] have "- 1022 < expo b" by simp
  then have "\<not> b < 2 powi (- 1022)" by (auto simp add: expo_def)
  then have nb: "2 powi (- 1022) \<le> b" by simp
  have "rnd a \<le> 2 powi (expo a + 1)" by (rule rnd_upper [OF assms(1)])
  also have "\<dots> \<le> 2 powi (expo b)" using lt by (intro power_int_increasing) simp_all
  also have "\<dots> \<le> rnd b" by (rule rnd_lower [OF nb])
  finally show ?thesis .
qed

lemma rnd_integral:
  assumes "m / ulp m = of_int k"
  shows "rnd m = m"
proof -
  have "rnd m = of_int k * ulp m" by (simp add: rnd_def assms)
  also have "\<dots> = m / ulp m * ulp m" by (simp only: assms)
  also have "\<dots> = m" by simp
  finally show ?thesis .
qed

lemma powi_diff_nat: "j \<le> i \<Longrightarrow> (2::real) powi i / 2 powi j = 2 ^ nat (i - j)"
proof -
  assume "j \<le> i"
  have "(2::real) powi i / 2 powi j = 2 powi (i - j)"
    by (simp add: power_int_diff)
  also have "\<dots> = 2 ^ nat (i - j)" using \<open>j \<le> i\<close> by (simp add: power_int_def)
  finally show ?thesis .
qed

lemma rnd_exact:
  assumes m: "m = of_int k * 2 powi j" and k: "0 \<le> k" "k < 2 ^ 53" and j: "- 1074 \<le> j"
  shows "rnd m = m"
proof -
  have m0: "0 \<le> m" using m k by simp
  have "of_int k < (2::real) ^ 53" using k(2) by (metis of_int_less_iff of_int_numeral of_int_power)
  then have "m < 2 ^ 53 * 2 powi j" unfolding m by (intro mult_strict_right_mono) simp_all
  also have "(2::real) ^ 53 * 2 powi j = 2 powi (53 + j)"
    by (subst power_int_add) simp_all
  finally have up: "m < 2 powi (53 + j)" .
  have e: "expo m - 52 \<le> j"
  proof (cases "m < 2 powi (- 1022)")
    case True
    then show ?thesis using j by (simp add: expo_def)
  next
    case False
    then have "2 powi (- 1022) \<le> m" by simp
    from expo_lower [OF this] up have "(2::real) powi (expo m) < 2 powi (53 + j)" by simp
    then have "expo m < 53 + j" by (rule pow2_less_cancel)
    then show ?thesis by simp
  qed
  have "m / ulp m = of_int k * (2 powi j / 2 powi (expo m - 52))"
    by (simp add: m ulp_def)
  also have "2 powi j / 2 powi (expo m - 52) = (2::real) ^ nat (j - (expo m - 52))"
    by (rule powi_diff_nat [OF e])
  also have "of_int k * (2::real) ^ nat (j - (expo m - 52))
      = of_int (k * 2 ^ nat (j - (expo m - 52)))" by simp
  finally show ?thesis by (rule rnd_integral)
qed

lemma rnd_pow2:
  assumes "- 1074 \<le> j"
  shows "rnd (2 powi j) = 2 powi j"
  using rnd_exact [of "2 powi j" 1 j] assms by simp

lemma rnd_idem:
  assumes "0 \<le> m"
  shows "rnd (rnd m) = rnd m"
proof -
  let ?k = "round_even (m / ulp m)"
  from assms have "0 \<le> m / ulp m" by simp
  then have k0: "0 \<le> ?k" by (rule round_even_nonneg)
  from round_even_scaled_le [OF assms] have k1: "?k \<le> 2 ^ 53"
    by (metis of_int_le_iff of_int_numeral of_int_power)
  have r: "rnd m = of_int ?k * 2 powi (expo m - 52)" by (simp add: rnd_def ulp_def)
  have j: "- 1074 \<le> expo m - 52" using expo_ge [of m] by simp
  show ?thesis
  proof (cases "?k = 2 ^ 53")
    case True
    have "rnd m = of_int (2 ^ 53) * ulp m" by (simp only: rnd_def True)
    also have "\<dots> = ulp m * 2 ^ 53" by simp
    also have "\<dots> = 2 powi (expo m + 1)" by (rule ulp_times53)
    finally have "rnd m = 2 powi (expo m + 1)" .
    moreover have "- 1074 \<le> expo m + 1" using expo_ge [of m] by simp
    ultimately show ?thesis by (simp only: rnd_pow2)
  next
    case False
    with k1 have "?k < 2 ^ 53" by simp
    from rnd_exact [OF r k0 this j] show ?thesis .
  qed
qed

lemma rnd_relative_error:
  assumes "2 powi (- 1022) \<le> m"
  shows "\<bar>rnd m - m\<bar> \<le> m / 2 ^ 53"
proof -
  from ulp_scaled_ge [OF assms] have "2 ^ 52 * ulp m \<le> m"
    by (simp only: pos_le_divide_eq [OF ulp_pos])
  then have "ulp m / 2 \<le> m / 2 ^ 53" by simp
  with rnd_error [of m] show ?thesis by linarith
qed

lemma rnd_eq_zero_iff:
  assumes "0 \<le> m"
  shows "rnd m = 0 \<longleftrightarrow> m \<le> 2 powi (- 1075)"
proof -
  have p: "(2::real) powi (- 1075) < 2 powi (- 1022)"
    by (intro power_int_strict_increasing) simp_all
  have u: "ulp x = 2 powi (- 1074)" if "x < 2 powi (- 1022)" for x
    using that by (simp add: ulp_def expo_def)
  have "(2::real) powi (- 1074) = 2 powi (- 1075 + 1)" by simp
  also have "\<dots> = 2 powi (- 1075) * 2 powi 1" by (rule power_int_add) simp
  finally have h: "(2::real) powi (- 1075) = 2 powi (- 1074) / 2" by simp
  show ?thesis
  proof
    assume z: "rnd m = 0"
    show "m \<le> 2 powi (- 1075)"
    proof (rule ccontr)
      assume "\<not> m \<le> 2 powi (- 1075)"
      then have gt: "2 powi (- 1075) < m" by simp
      show False
      proof (cases "m < 2 powi (- 1022)")
        case True
        from gt have "1 / 2 < m / ulp m" by (simp add: u [OF True] h field_simps)
        then have "1 \<le> round_even (m / ulp m)" by (rule round_even_ge_one)
        then have "0 < real_of_int (round_even (m / ulp m)) * ulp m"
          by (intro mult_pos_pos) simp_all
        then have "0 < rnd m" by (simp only: rnd_def)
        with z show False by simp
      next
        case False
        then have "2 powi (- 1022) \<le> m" by simp
        from rnd_lower [OF this] have "0 < rnd m"
          by (smt (verit) zero_less_power_int)
        with z show False by simp
      qed
    qed
  next
    assume le: "m \<le> 2 powi (- 1075)"
    with p have sub: "m < 2 powi (- 1022)" by simp
    from le have "m / ulp m \<le> 1 / 2" by (simp add: u [OF sub] h field_simps)
    moreover have "0 \<le> m / ulp m" using assms by simp
    ultimately have "round_even (m / ulp m) = 0" by (rule round_even_small [rotated])
    then show "rnd m = 0" by (simp add: rnd_def)
  qed
qed

lemma bind_err_Inr [simp]: "bind_err (Inr v) f = f v"
  by (simp add: bind_err_def)

lemma bind_err_Inl [simp]: "bind_err (Inl e) f = Inl e"
  by (simp add: bind_err_def)

lemma bind_err_eq_Inr:
  "bind_err m f = Inr r \<longleftrightarrow> (\<exists>v. m = Inr v \<and> f v = Inr r)"
  by (cases m) simp_all

lemma bind_err_eq_Inl:
  "bind_err m f = Inl e \<longleftrightarrow> m = Inl e \<or> (\<exists>v. m = Inr v \<and> f v = Inl e)"
  by (cases m) simp_all

lemma rnd_of_int:
  assumes "0 \<le> k" and "k < 2 ^ 53"
  shows "rnd (of_int k) = of_int k"
  using rnd_exact [of "of_int k" k 0] assms by simp

lemma rnd_numeral [simp]:
  "(numeral n :: int) < 2 ^ 53 \<Longrightarrow> rnd (numeral n) = numeral n"
  using rnd_of_int [of "numeral n"] by simp

lemma rnd_one [simp]: "rnd 1 = 1"
  using rnd_of_int [of 1] by simp

lemma pack_exact: "rnd m = m \<Longrightarrow> m < 2 ^ 1024 \<Longrightarrow> pack s m = Fin s m"
  by (simp add: pack_def Let_def)

lemma pack_zero [simp]: "pack s 0 = Fin s 0"
  by (simp add: pack_def)

lemma pack_one [simp]: "pack s 1 = Fin s 1"
  by (simp add: pack_def)

lemma pack_numeral [simp]:
  "(numeral n :: int) < 2 ^ 53 \<Longrightarrow> pack s (numeral n) = Fin s (numeral n)"
proof -
  assume a: "(numeral n :: int) < 2 ^ 53"
  then have "real_of_int (numeral n) < real_of_int (2 ^ 53)" by (simp only: of_int_less_iff)
  then have "(numeral n :: real) < 2 ^ 53" by simp
  also have "(2::real) ^ 53 < 2 ^ 1024" by (intro power_strict_increasing) simp_all
  finally have "(numeral n :: real) < 2 ^ 1024" .
  with a show ?thesis by (simp add: pack_def Let_def)
qed

lemma float_of_int_small:
  assumes "\<bar>n\<bar> < 2 ^ 53"
  shows "float_of_int n = Inr (Fin (n < 0) \<bar>real_of_int n\<bar>)"
proof -
  have e: "\<bar>real_of_int n\<bar> = of_int \<bar>n\<bar>" by simp
  have r: "rnd \<bar>real_of_int n\<bar> = \<bar>real_of_int n\<bar>"
    unfolding e using assms by (intro rnd_of_int) simp_all
  have "real_of_int \<bar>n\<bar> < real_of_int (2 ^ 53)" using assms by (simp only: of_int_less_iff)
  then have "\<bar>real_of_int n\<bar> < 2 ^ 53" by simp
  also have "(2::real) ^ 53 < 2 ^ 1024" by (intro power_strict_increasing) simp_all
  finally have "\<not> 2 ^ 1024 \<le> \<bar>real_of_int n\<bar>" by simp
  then show ?thesis by (simp add: float_of_int_def Let_def r)
qed

lemma float_of_int_numeral [simp]:
  "(numeral n :: int) < 2 ^ 53 \<Longrightarrow> float_of_int (numeral n) = Inr (Fin False (numeral n))"
  using float_of_int_small [of "numeral n"] by simp

lemma float_of_int_zero [simp]: "float_of_int 0 = Inr (Fin False 0)"
  using float_of_int_small [of 0] by simp

lemma float_of_int_one [simp]: "float_of_int 1 = Inr (Fin False 1)"
  using float_of_int_small [of 1] by simp

subsection \<open>Degenerate inputs\<close>

text \<open>
  Claim C5, evaluated at a zero leaf count with every other parameter as in the
  specification's example: all ten range assertions pass, \<open>cuf\<close> at line 86 divides by
  \<open>3.0 * Le = 0\<close>, and the \<open>ZeroDivisionError\<close> leaves \<open>analyze_tt\<close> unhandled. A zero total
  value and a non-positive exponent are caught by assertions.
\<close>

theorem zero_leaf_count_divides_by_zero:
  "check_params example_static (example_dynamic\<lparr>Le := 0\<rparr>) = Inr () \<and>
   calc_cuf (example_dynamic\<lparr>Le := 0\<rparr>) = Inl ZeroDivisionError \<and>
   analyze_tt example_static (example_dynamic\<lparr>Le := 0\<rparr>) [] = Inl ZeroDivisionError \<and>
   analyze_tt example_static (example_dynamic\<lparr>Va := 0\<rparr>) [] = Inl AssertionError \<and>
   analyze_tt example_static (example_dynamic\<lparr>Ex' := Fin False 0\<rparr>) [] = Inl AssertionError"
proof -
  have a: "check_params example_static (example_dynamic\<lparr>Le := 0\<rparr>) = Inr ()"
    by (simp add: check_params_def example_static_def example_dynamic_def py_assert_def)
  have b: "calc_cuf (example_dynamic\<lparr>Le := 0\<rparr>) = Inl ZeroDivisionError"
    by (simp add: calc_cuf_def example_dynamic_def fmul_fi_def SATOSHIS_PER_BITCOIN_def
          truediv_def)
  have c: "analyze_tt example_static (example_dynamic\<lparr>Le := 0\<rparr>) [] = Inl ZeroDivisionError"
    by (simp add: analyze_tt_def compute_tt_def searches_def preconditions_def a b)
  have d: "analyze_tt example_static (example_dynamic\<lparr>Va := 0\<rparr>) [] = Inl AssertionError"
    by (simp add: analyze_tt_def compute_tt_def searches_def preconditions_def
          check_params_def check_funds_def calc_cuf_def example_static_def
          example_dynamic_def py_assert_def fmul_fi_def fmul_if_def
          SATOSHIS_PER_BITCOIN_def truediv_def)
  have e: "analyze_tt example_static (example_dynamic\<lparr>Ex' := Fin False 0\<rparr>) []
      = Inl AssertionError"
    by (simp add: analyze_tt_def compute_tt_def searches_def preconditions_def
          check_params_def example_static_def example_dynamic_def py_assert_def)
  from a b c d e show ?thesis by blast
qed

subsection \<open>Which exceptions can leave which operation\<close>

lemma truediv_not_assert: "truediv a b \<noteq> Inl AssertionError"
  by (simp add: truediv_def)

lemma float_of_int_not_assert: "float_of_int n \<noteq> Inl AssertionError"
  by (simp add: float_of_int_def Let_def)

lemma float_pow_not_assert: "float_pow a b \<noteq> Inl AssertionError"
  by (cases b; cases a) (simp_all add: Let_def)

lemma py_ceil_not_assert: "py_ceil a \<noteq> Inl AssertionError"
  by (cases a) simp_all

lemma bind_not_assert:
  assumes "m \<noteq> Inl AssertionError" and "\<And>v. f v \<noteq> Inl AssertionError"
  shows "bind_err m f \<noteq> Inl AssertionError"
  using assms by (cases m) simp_all

lemmas not_assert_intros =
  bind_not_assert truediv_not_assert float_of_int_not_assert float_pow_not_assert
  py_ceil_not_assert

lemma mixed_not_assert:
  "fmul_fi a n \<noteq> Inl AssertionError" "fmul_if n a \<noteq> Inl AssertionError"
  "fadd_fi a n \<noteq> Inl AssertionError" "truediv_fi a n \<noteq> Inl AssertionError"
  "truediv_if n a \<noteq> Inl AssertionError" "pow_fi a n \<noteq> Inl AssertionError"
  unfolding fmul_fi_def fmul_if_def fadd_fi_def truediv_fi_def truediv_if_def pow_fi_def
  by (intro not_assert_intros; simp)+

lemma calc_feerate_not_assert: "calc_feerate fe ex x \<noteq> Inl AssertionError"
  unfolding calc_feerate_def by (intro not_assert_intros)

lemma calc_feerate_derivative_not_assert:
  "calc_feerate_derivative fe ex x \<noteq> Inl AssertionError"
  unfolding calc_feerate_derivative_def Let_def
  by (intro not_assert_intros mixed_not_assert)

lemma midpoint_not_assert: "midpoint s \<noteq> Inl AssertionError"
  unfolding midpoint_def by (rule truediv_not_assert)

lemma calc_max_fee_not_assert: "calc_max_fee sp dp x \<noteq> Inl AssertionError"
  unfolding calc_max_fee_def
  by (intro not_assert_intros mixed_not_assert calc_feerate_not_assert)

lemma calc_exp_cost_not_assert: "calc_exp_cost sp dp x \<noteq> Inl AssertionError"
  unfolding calc_exp_cost_def
  by (intro not_assert_intros mixed_not_assert calc_feerate_not_assert; simp)

lemma calc_exp_cost_deriv_not_assert: "calc_exp_cost_deriv sp dp x \<noteq> Inl AssertionError"
  unfolding calc_exp_cost_deriv_def
  by (intro not_assert_intros mixed_not_assert calc_feerate_derivative_not_assert; simp)

lemma stage1_body_not_assert: "stage1_body sp dp cuf s \<noteq> Inl AssertionError"
  unfolding stage1_body_def Let_def
  by (intro not_assert_intros midpoint_not_assert calc_max_fee_not_assert; simp)

lemma stage2_body_not_assert: "stage2_body sp dp s \<noteq> Inl AssertionError"
  unfolding stage2_body_def Let_def
  by (intro not_assert_intros midpoint_not_assert calc_exp_cost_not_assert
        calc_exp_cost_deriv_not_assert; simp)

lemma for_range_not_assert:
  assumes "\<And>t. body t \<noteq> Inl AssertionError"
  shows "for_range n body s \<noteq> Inl AssertionError"
proof (induction n arbitrary: s)
  case 0
  show ?case by simp
next
  case (Suc n)
  show ?case
    unfolding for_range.simps by (intro bind_not_assert assms Suc.IH)
qed

lemma feasibility_search_not_assert: "feasibility_search sp dp cuf \<noteq> Inl AssertionError"
  unfolding feasibility_search_def by (intro for_range_not_assert stage1_body_not_assert)

lemma cost_search_not_assert: "cost_search sp dp s \<noteq> Inl AssertionError"
  unfolding cost_search_def
  by (intro bind_not_assert for_range_not_assert stage2_body_not_assert)
     (simp add: stage2_init_def split: option.split)

lemma derive_metrics_not_assert: "derive_metrics sp dp cuf s \<noteq> Inl AssertionError"
proof (cases "x_var s")
  case None
  then show ?thesis by (simp add: derive_metrics_def)
next
  case (Some x)
  show ?thesis
    unfolding derive_metrics_def Some option.case Let_def
    by (intro not_assert_intros mixed_not_assert calc_max_fee_not_assert
          calc_feerate_not_assert; simp)
qed

lemma after_preconditions_not_assert:
  assumes "preconditions sp dp = Inr cuf"
  shows "analyze_tt sp dp out \<noteq> Inl AssertionError"
proof -
  have "searches sp dp \<noteq> Inl AssertionError"
    unfolding searches_def assms bind_err_Inr
    by (intro bind_not_assert feasibility_search_not_assert cost_search_not_assert) simp
  then have "compute_tt sp dp \<noteq> Inl AssertionError"
    unfolding compute_tt_def
    by (intro bind_not_assert) (auto simp add: derive_metrics_not_assert)
  then show ?thesis
    unfolding analyze_tt_def by (intro bind_not_assert) auto
qed

lemma check_params_eq:
  "check_params sp dp = (if range_invariants sp dp then Inr () else Inl AssertionError)"
  by (simp add: check_params_def range_invariants_def py_assert_def)

lemma analyze_tt_preconditions_Inl:
  "preconditions sp dp = Inl e \<Longrightarrow> analyze_tt sp dp out = Inl e"
  by (simp add: analyze_tt_def compute_tt_def searches_def)

subsection \<open>Evaluating a rounding\<close>

lemma rnd_eval:
  assumes "2 powi e \<le> m" and "m < 2 powi (e + 1)" and "- 1022 \<le> e"
  shows "rnd m = of_int (round_even (m / 2 powi (e - 52))) * 2 powi (e - 52)"
  by (simp add: rnd_def ulp_def expo_normal [OF assms])

lemma round_even_eval:
  assumes "of_int f \<le> r" and "r < of_int f + 1 / 2"
  shows "round_even r = f"
proof -
  from assms have "\<lfloor>r\<rfloor> = f" by linarith
  with assms show ?thesis by (simp add: round_even_def Let_def)
qed

lemma round_even_eval_up:
  assumes "of_int f - 1 / 2 < r" and "r \<le> of_int f"
  shows "round_even r = f"
proof (cases "r = of_int f")
  case True
  then show ?thesis by simp
next
  case False
  with assms have "\<lfloor>r\<rfloor> = f - 1" by linarith
  with assms False show ?thesis by (simp add: round_even_def Let_def)
qed

lemma rnd_two_million_thirds: "rnd (2000000 / 3) = 5726623061333333 / 2 ^ 33"
proof -
  have "rnd (2000000 / 3)
      = of_int (round_even ((2000000 / 3) / 2 powi (19 - 52))) * 2 powi (19 - 52)"
    by (rule rnd_eval) simp_all
  moreover have "round_even ((2000000 / 3) / 2 powi (19 - 52)) = 5726623061333333"
    by (rule round_even_eval) simp_all
  ultimately show ?thesis by simp
qed

subsection \<open>Precondition failures\<close>

lemma calc_cuf_example:
  "calc_cuf example_dynamic = Inr (Fin False (5726623061333333 / 2 ^ 33))"
  by (simp add: calc_cuf_def example_dynamic_def fmul_fi_def SATOSHIS_PER_BITCOIN_def
        truediv_def pack_def rnd_two_million_thirds)

lemma check_funds_not_assert_iff:
  "check_funds sp dp cuf = Inl AssertionError \<longleftrightarrow>
     (\<exists>t. fmul_if (MS sp) (Fe dp) = Inr t \<and> \<not> fless t cuf)"
proof (cases "fmul_if (MS sp) (Fe dp)")
  case (Inl e)
  with mixed_not_assert(2) [of "MS sp" "Fe dp"] show ?thesis
    by (auto simp add: check_funds_def)
next
  case (Inr t)
  then show ?thesis by (simp add: check_funds_def py_assert_def)
qed

lemma preconditions_assert_iff:
  assumes "range_invariants sp dp"
  shows "preconditions sp dp = Inl AssertionError \<longleftrightarrow>
     (\<exists>cuf. calc_cuf dp = Inr cuf \<and> (\<exists>t. fmul_if (MS sp) (Fe dp) = Inr t \<and> \<not> fless t cuf))"
proof (cases "calc_cuf dp")
  case (Inl e)
  have "calc_cuf dp \<noteq> Inl AssertionError"
    unfolding calc_cuf_def by (intro not_assert_intros mixed_not_assert)
  with Inl show ?thesis
    by (auto simp add: preconditions_def check_params_eq assms)
next
  case (Inr cuf)
  have "preconditions sp dp = Inl AssertionError \<longleftrightarrow> check_funds sp dp cuf = Inl AssertionError"
    by (cases "check_funds sp dp cuf") (simp_all add: preconditions_def check_params_eq assms Inr)
  then show ?thesis by (simp add: check_funds_not_assert_iff Inr)
qed

lemma analyze_tt_assert_iff:
  "analyze_tt sp dp out = Inl AssertionError \<longleftrightarrow> preconditions sp dp = Inl AssertionError"
proof (cases "preconditions sp dp")
  case (Inl e)
  then show ?thesis by (simp add: analyze_tt_preconditions_Inl)
next
  case (Inr cuf)
  then show ?thesis by (simp add: after_preconditions_not_assert)
qed


lemma range_invariants_example: "range_invariants example_static example_dynamic"
  by (simp add: range_invariants_def example_static_def example_dynamic_def)



subsection \<open>Operations on non-negative floats\<close>

lemma two_pow_1024_gt_one: "(1::real) < 2 ^ 1024"
  by (rule one_less_power) simp_all

lemma rnd_le_one: "0 \<le> m \<Longrightarrow> m \<le> 1 \<Longrightarrow> rnd m \<le> 1"
  using rnd_mono [of m 1] by simp

lemma rnd_le: "0 \<le> a \<Longrightarrow> a \<le> b \<Longrightarrow> rnd b = b \<Longrightarrow> rnd a \<le> b"
  using rnd_mono [of a b] by simp

lemma rnd_ge: "0 \<le> a \<Longrightarrow> a \<le> b \<Longrightarrow> rnd a = a \<Longrightarrow> a \<le> rnd b"
  using rnd_mono [of a b] by simp

lemma rnd_pos: "0 \<le> m \<Longrightarrow> 2 powi (- 1075) < m \<Longrightarrow> 0 < rnd m"
  using rnd_eq_zero_iff [of m] rnd_nonneg [of m] by simp

lemma pack_Fin: "rnd m < 2 ^ 1024 \<Longrightarrow> pack s m = Fin s (rnd m)"
  by (simp add: pack_def Let_def)

lemma pack_Inf: "2 ^ 1024 \<le> rnd m \<Longrightarrow> pack s m = Inf s"
  by (simp add: pack_def Let_def)

lemma pack_le_one: "0 \<le> m \<Longrightarrow> m \<le> 1 \<Longrightarrow> pack s m = Fin s (rnd m)"
  using rnd_le_one [of m] two_pow_1024_gt_one by (intro pack_Fin) linarith

lemma pack_mono:
  assumes "0 \<le> a" and "a \<le> b"
  shows "fle (pack False a) (pack False b)"
proof -
  have "rnd a \<le> rnd b" using assms by (rule rnd_mono)
  then show ?thesis by (simp add: pack_def Let_def)
qed

lemma fle_zero_pack: "0 \<le> m \<Longrightarrow> fle (Fin False 0) (pack False m)"
  using rnd_nonneg [of m] by (simp add: pack_def Let_def)

lemma fsub_one:
  assumes "0 \<le> xv" and "xv < 1"
  shows "fsub (Fin False 1) (Fin False xv) = Fin False (rnd (1 - xv))"
  using assms pack_le_one [of "1 - xv" False] by (simp add: fsub_def Let_def)

lemma float_pow_unit:
  assumes "0 \<le> b" and "b \<le> 1" and "0 < n"
  shows "float_pow (Fin False b) (Fin False n) = Inr (Fin False (rnd (b powr n)))"
proof -
  have "b powr n \<le> 1" using assms by (simp add: powr_le1)
  then have "rnd (b powr n) \<le> 1" by (intro rnd_le_one) simp_all
  then have "\<not> 2 ^ 1024 \<le> rnd (b powr n)" using two_pow_1024_gt_one by linarith
  with assms show ?thesis by (simp add: Let_def)
qed

declare float_pow.simps [simp del]

lemma calc_feerate_eq:
  assumes "0 \<le> xv" and "xv < 1" and "0 < ex"
  shows "calc_feerate fe (Fin False ex) (Fin False xv) =
     (if rnd (rnd (1 - xv) powr ex) = 0 then Inl ZeroDivisionError
      else Inr (fquot fe (Fin False (rnd (rnd (1 - xv) powr ex)))))"
proof -
  have b: "0 \<le> rnd (1 - xv)" "rnd (1 - xv) \<le> 1"
    using assms by (simp_all add: rnd_nonneg rnd_le_one)
  show ?thesis
    by (simp add: calc_feerate_def fsub_one assms float_pow_unit b truediv_def)
qed

subsection \<open>The feerate model in binary64\<close>

lemma rnd_pow2_nat: "n \<le> 1023 \<Longrightarrow> rnd (2 ^ n) = 2 ^ n"
  using rnd_pow2 [of "int n"] by simp

lemma rnd_inv_pow2: "n \<le> 1074 \<Longrightarrow> rnd (1 / 2 ^ n) = 1 / 2 ^ n"
  using rnd_pow2 [of "- int n"] by (simp add: powi_neg_nat)

lemma fadd_one:
  assumes "0 < ex" and "ex \<le> 2 ^ 1000"
  shows "fadd_fi (Fin False ex) 1 = Inr (Fin False (rnd (ex + 1)))"
proof -
  have "ex + 1 \<le> 2 ^ 1000 + 2 ^ 1000" using assms one_le_power [of "2::real" 1000] by simp
  then have "ex + 1 \<le> 2 ^ 1001" by simp
  moreover have "rnd (2 ^ 1001 :: real) = 2 ^ 1001" by (rule rnd_pow2_nat) simp
  ultimately have "rnd (ex + 1) \<le> 2 ^ 1001" using assms by (intro rnd_le) simp_all
  also have "(2::real) ^ 1001 < 2 ^ 1024" by (intro power_strict_increasing) simp_all
  finally have "rnd (ex + 1) < 2 ^ 1024" .
  then have "pack False (ex + 1) = Fin False (rnd (ex + 1))" by (rule pack_Fin)
  with assms show ?thesis by (simp add: fadd_fi_def Let_def)
qed

lemma rnd_ge_one: "1 \<le> m \<Longrightarrow> 1 \<le> rnd m"
  using rnd_ge [of 1 m] by simp

lemma calc_feerate_derivative_eq:
  assumes "0 \<le> xv" and "xv < 1" and "0 < ex" and "ex \<le> 2 ^ 1000"
  shows "calc_feerate_derivative fe (Fin False ex) (Fin False xv) =
     (if rnd (rnd (1 - xv) powr rnd (ex + 1)) = 0 then Inl ZeroDivisionError
      else Inr (fquot (fmul fe (Fin False ex))
                  (Fin False (rnd (rnd (1 - xv) powr rnd (ex + 1))))))"
proof -
  have b: "0 \<le> rnd (1 - xv)" "rnd (1 - xv) \<le> 1"
    using assms by (simp_all add: rnd_nonneg rnd_le_one)
  have e: "0 < rnd (ex + 1)" using rnd_ge_one [of "ex + 1"] assms by simp
  have f: "fadd_fi (Fin False ex) 1 = Inr (Fin False (rnd (ex + 1)))"
    using assms(3,4) by (rule fadd_one)
  show ?thesis
    by (simp add: calc_feerate_derivative_def Let_def fsub_one assms(1,2) f
          float_pow_unit b e truediv_def)
qed

lemma rounded_power_mono:
  assumes "0 \<le> xv" and "xv \<le> yv" and "yv < 1" and "0 \<le> n"
  shows "rnd (rnd (1 - yv) powr n) \<le> rnd (rnd (1 - xv) powr n)"
proof -
  have "rnd (1 - yv) \<le> rnd (1 - xv)" using assms by (intro rnd_mono) simp_all
  moreover have "0 \<le> rnd (1 - yv)" using assms by (intro rnd_nonneg) simp
  ultimately have "rnd (1 - yv) powr n \<le> rnd (1 - xv) powr n"
    using assms by (intro powr_mono2) simp_all
  then show ?thesis by (intro rnd_mono) simp_all
qed

lemma fquot_mono:
  assumes "0 < q" and "q \<le> p" and "fle (Fin False 0) t" and "is_double t"
  shows "fle (fquot t (Fin False p)) (fquot t (Fin False q))"
proof (cases t)
  case (Fin s m)
  with assms have s: "m = 0 \<or> \<not> s" by (auto split: if_splits)
  show ?thesis
  proof (cases "m = 0")
    case True
    then show ?thesis using Fin by simp
  next
    case False
    with s have ns: "\<not> s" by simp
    from assms(3) Fin ns have m: "0 \<le> m" by simp
    have "m / p \<le> m / q" using assms m by (intro divide_left_mono) simp_all
    moreover have "0 \<le> m / p" using m assms by simp
    ultimately have "fle (pack False (m / p)) (pack False (m / q))" by (intro pack_mono)
    then show ?thesis using Fin ns by simp
  qed
next
  case (Inf s)
  with assms show ?thesis by (cases s) simp_all
next
  case NaN
  with assms show ?thesis by simp
qed

lemma fquot_nonneg:
  assumes "0 < p" and "fle (Fin False 0) t" and "is_double t"
  shows "fle (Fin False 0) (fquot t (Fin False p))"
proof (cases t)
  case (Fin s m)
  show ?thesis
  proof (cases "m = 0")
    case True
    then show ?thesis using Fin by simp
  next
    case False
    with assms Fin have ns: "\<not> s" by (auto split: if_splits)
    from assms(2) Fin ns have m: "0 \<le> m" by simp
    then have "0 \<le> m / p" using assms by simp
    then show ?thesis using Fin ns by (simp add: fle_zero_pack)
  qed
next
  case (Inf s)
  with assms show ?thesis by (cases s) simp_all
next
  case NaN
  with assms show ?thesis by simp
qed

lemma is_double_pack: "0 \<le> m \<Longrightarrow> is_double (pack s m)"
  by (simp add: pack_def Let_def rnd_nonneg rnd_idem)


lemma rnd_three_quarters: "rnd (3 / 4) = 3 / 4"
  using rnd_exact [of "3 / 4" 3 "- 2"] by simp

lemma rnd_nine_sixteenths: "rnd (9 / 16) = 9 / 16"
  using rnd_exact [of "9 / 16" 9 "- 4"] by simp

lemma rnd_half_const: "rnd (1 / 2) = 1 / 2"
  using rnd_exact [of "1 / 2" 1 "- 1"] by simp

lemma rnd_quarter_const: "rnd (1 / 4) = 1 / 4"
  using rnd_exact [of "1 / 4" 1 "- 2"] by simp



subsection \<open>The feasibility search\<close>

lemma for_range_Suc_right:
  "for_range (Suc n) body s = bind_err (for_range n body s) body"
proof (induction n arbitrary: s)
  case 0
  show ?case by (cases "body s") simp_all
next
  case (Suc n)
  show ?case
  proof (cases "body s")
    case (Inl e)
    then show ?thesis by simp
  next
    case (Inr t)
    have "for_range (Suc (Suc n)) body s = for_range (Suc n) body t"
      by (simp add: Inr)
    also have "\<dots> = bind_err (for_range n body t) body" by (rule Suc.IH)
    also have "\<dots> = bind_err (for_range (Suc n) body s) body" by (simp add: Inr)
    finally show ?thesis .
  qed
qed

lemma for_range_Suc_Inr:
  assumes "for_range (Suc n) body s = Inr u"
  obtains t where "for_range n body s = Inr t" and "body t = Inr u"
  using assms unfolding for_range_Suc_right by (auto simp add: bind_err_eq_Inr)

lemma for_range_prefix:
  assumes "for_range n body s = Inr u" and "k \<le> n"
  shows "\<exists>t. for_range k body s = Inr t"
  using assms
proof (induction n arbitrary: u)
  case 0
  then show ?case by simp
next
  case (Suc n)
  from Suc.prems(1) obtain t where t: "for_range n body s = Inr t" "body t = Inr u"
    by (rule for_range_Suc_Inr)
  show ?case
  proof (cases "k = Suc n")
    case True
    with Suc.prems show ?thesis by blast
  next
    case False
    with Suc.prems have "k \<le> n" by simp
    with Suc.IH t show ?thesis by blast
  qed
qed

lemma pack_dyadic:
  assumes "0 \<le> c" and "c < 2 ^ 53" and "n \<le> 1074"
  shows "pack s (real_of_int c / 2 ^ n) = Fin s (real_of_int c / 2 ^ n)"
proof -
  let ?m = "real_of_int c / 2 ^ n"
  have "?m = of_int c * 2 powi (- int n)" by (simp add: powi_neg_nat)
  from rnd_exact [OF this assms(1,2)] assms(3) have r: "rnd ?m = ?m" by simp
  have "?m \<le> real_of_int c" using assms(1) by (simp add: divide_le_eq mult_le_cancel_left1)
  also have "real_of_int c < 2 ^ 53"
    using assms(2) by (metis of_int_less_iff of_int_numeral of_int_power)
  also have "(2::real) ^ 53 < 2 ^ 1024" by (intro power_strict_increasing) simp_all
  finally show ?thesis using r by (intro pack_exact)
qed

lemma int_less_pow_53:
  assumes "a < 2 ^ k" and "k \<le> 51"
  shows "2 * a + 1 < (2::int) ^ 53"
proof -
  have "(2::int) ^ k \<le> 2 ^ 51" using assms(2) by (intro power_increasing) simp_all
  with assms(1) have "a < 2 ^ 51" by linarith
  then show ?thesis by simp
qed

lemma fadd_nonneg:
  assumes "0 \<le> m" and "0 \<le> n"
  shows "fadd (Fin False m) (Fin False n) = (if m + n = 0 then Fin False 0 else pack False (m + n))"
proof -
  from assms have "\<bar>m + n\<bar> = m + n" "\<not> m + n < 0" by simp_all
  then show ?thesis by (simp add: Let_def)
qed

lemma midpoint_dyadic:
  assumes "low_x s = Fin False (real_of_int a / 2 ^ k)"
    and "high_x s = Fin False (real_of_int (a + 1) / 2 ^ k)"
    and "0 \<le> a" and "a < 2 ^ k" and "k \<le> 51"
  shows "midpoint s = Inr (Fin False (real_of_int (2 * a + 1) / 2 ^ Suc k))"
proof -
  have c: "0 \<le> 2 * a + 1" "2 * a + 1 < 2 ^ 53"
    using assms(3) int_less_pow_53 [OF assms(4,5)] by simp_all
  have v: "real_of_int a / 2 ^ k + real_of_int (a + 1) / 2 ^ k = real_of_int (2 * a + 1) / 2 ^ k"
    by (simp add: add_divide_distrib)
  have pos: "0 < real_of_int (2 * a + 1) / 2 ^ k" using assms(3) by simp
  have "fadd (low_x s) (high_x s) = pack False (real_of_int (2 * a + 1) / 2 ^ k)"
    unfolding assms(1,2) using pos assms(3) by (subst fadd_nonneg) (simp_all only: v, simp_all)
  also have "\<dots> = Fin False (real_of_int (2 * a + 1) / 2 ^ k)"
    using c assms(5) by (intro pack_dyadic) simp_all
  finally have s: "fadd (low_x s) (high_x s) = Fin False (real_of_int (2 * a + 1) / 2 ^ k)" .
  have "fquot (Fin False (real_of_int (2 * a + 1) / 2 ^ k)) (Fin False 2)
      = pack False (real_of_int (2 * a + 1) / 2 ^ Suc k)" by (simp add: mult.commute)
  also have "\<dots> = Fin False (real_of_int (2 * a + 1) / 2 ^ Suc k)"
    using c assms(5) by (intro pack_dyadic) simp_all
  finally show ?thesis by (simp add: midpoint_def s truediv_def)
qed

lemma stage1_body_Inr:
  assumes "stage1_body sp dp cuf s = Inr u"
  obtains x max_fee where "midpoint s = Inr x" and "calc_max_fee sp dp x = Inr max_fee"
    and "x_var u = Some x" and "evals u = evals s @ [FeerateCall x]"
    and "fless cuf max_fee \<Longrightarrow> high_x u = x \<and> low_x u = low_x s"
    and "\<not> fless cuf max_fee \<Longrightarrow> low_x u = x \<and> high_x u = high_x s"
proof -
  from assms obtain x max_fee where m: "midpoint s = Inr x"
    and f: "calc_max_fee sp dp x = Inr max_fee"
    and u: "u = (if fless cuf max_fee
          then s\<lparr>x_var := Some x, evals := evals s @ [FeerateCall x], high_x := x\<rparr>
          else s\<lparr>x_var := Some x, evals := evals s @ [FeerateCall x], low_x := x\<rparr>)"
    by (auto simp add: stage1_body_def bind_err_eq_Inr Let_def)
  show thesis
    by (rule that [OF m f]) (simp_all add: u)
qed

lemma stage1_inv_step:
  assumes inv: "stage1_inv sp dp cuf k a s" and k: "k \<le> 51"
    and body: "stage1_body sp dp cuf s = Inr u"
  shows "midpoint s = Inr (Fin False (real_of_int (2 * a + 1) / 2 ^ Suc k)) \<and>
         x_var u = Some (Fin False (real_of_int (2 * a + 1) / 2 ^ Suc k)) \<and>
         (stage1_inv sp dp cuf (Suc k) (2 * a) u \<and> x_var u = Some (high_x u) \<or>
          stage1_inv sp dp cuf (Suc k) (2 * a + 1) u \<and> x_var u = Some (low_x u))"
proof -
  from inv have a: "0 \<le> a" "a < 2 ^ k"
    and lo: "low_x s = Fin False (real_of_int a / 2 ^ k)"
    and hi: "high_x s = Fin False (real_of_int (a + 1) / 2 ^ k)"
    and w: "fee_within sp dp cuf (low_x s)"
    and e: "a + 1 = 2 ^ k \<or> fee_exceeds sp dp cuf (high_x s)"
    unfolding stage1_inv_def by blast+
  let ?x = "Fin False (real_of_int (2 * a + 1) / 2 ^ Suc k)"
  have mid: "midpoint s = Inr ?x" by (rule midpoint_dyadic [OF lo hi a k])
  from body obtain x max_fee where m: "midpoint s = Inr x"
    and f: "calc_max_fee sp dp x = Inr max_fee"
    and xv: "x_var u = Some x"
    and up: "fless cuf max_fee \<Longrightarrow> high_x u = x \<and> low_x u = low_x s"
    and down: "\<not> fless cuf max_fee \<Longrightarrow> low_x u = x \<and> high_x u = high_x s"
    by (rule stage1_body_Inr) blast
  from m mid have x: "x = ?x" by simp
  have xu: "x_var u = Some ?x" using xv x by simp
  show ?thesis
  proof (cases "fless cuf max_fee")
    case True
    from up [OF True] have hu: "high_x u = x" and lu: "low_x u = low_x s" by simp_all
    have l: "real_of_int a / 2 ^ k = real_of_int (2 * a) / 2 ^ Suc k" by simp
    have 1: "0 \<le> 2 * a" "2 * a < 2 ^ Suc k" using a by simp_all
    have 2: "low_x u = Fin False (real_of_int (2 * a) / 2 ^ Suc k)"
      unfolding lu lo l ..
    have 3: "high_x u = Fin False (real_of_int (2 * a + 1) / 2 ^ Suc k)"
      unfolding hu x ..
    have 4: "fee_within sp dp cuf (low_x u)" unfolding lu by (rule w)
    have 5: "fee_exceeds sp dp cuf (high_x u)"
      unfolding hu using f True by (simp add: fee_exceeds_def)
    have 6: "x_var u = Some (high_x u)" unfolding hu by (rule xv)
    have "stage1_inv sp dp cuf (Suc k) (2 * a) u"
      unfolding stage1_inv_def using 1 2 3 4 5 6 by blast
    with mid xu 6 show ?thesis by blast
  next
    case False
    from down [OF False] have lu: "low_x u = x" and hu: "high_x u = high_x s" by simp_all
    have "real_of_int (2 * a + 1 + 1) = 2 * real_of_int (a + 1)" by simp
    then have h: "real_of_int (a + 1) / 2 ^ k = real_of_int (2 * a + 1 + 1) / 2 ^ Suc k"
      by (simp only: power_Suc)
    have 1: "0 \<le> 2 * a + 1" "2 * a + 1 < 2 ^ Suc k" using a by simp_all
    have 2: "low_x u = Fin False (real_of_int (2 * a + 1) / 2 ^ Suc k)"
      unfolding lu x ..
    have 3: "high_x u = Fin False (real_of_int (2 * a + 1 + 1) / 2 ^ Suc k)"
      unfolding hu hi h ..
    have 4: "fee_within sp dp cuf (low_x u)"
      unfolding lu using f False by (simp add: fee_within_def)
    have 5: "2 * a + 1 + 1 = 2 ^ Suc k \<or> fee_exceeds sp dp cuf (high_x u)"
      unfolding hu using e by auto
    have 6: "x_var u = Some (low_x u)" unfolding lu by (rule xv)
    have "stage1_inv sp dp cuf (Suc k) (2 * a + 1) u"
      unfolding stage1_inv_def using 1 2 3 4 5 6 by blast
    with mid xu 6 show ?thesis by blast
  qed
qed

lemma fless_asym: "fless a b \<Longrightarrow> \<not> fless b a"
  by (cases a; cases b) auto

lemma float_pow_one: "float_pow (Fin False 1) ex = Inr (Fin False 1)"
  by (cases ex) (simp_all add: float_pow.simps)

lemma fquot_one: "is_double a \<Longrightarrow> fquot a (Fin False 1) = a"
  by (cases a) (simp_all add: pack_exact)

lemma calc_max_fee_zero:
  assumes "is_double (Fe dp)"
  shows "calc_max_fee sp dp (Fin False 0) = fmul_if (MS sp) (Fe dp)"
proof -
  have "fsub (Fin False 1) (Fin False 0) = Fin False 1" by (simp add: fsub_def)
  then have "calc_feerate (Fe dp) (Ex' dp) (Fin False 0) = Inr (Fe dp)"
    by (simp add: calc_feerate_def float_pow_one truediv_def fquot_one assms)
  then show ?thesis by (simp add: calc_max_fee_def)
qed

lemma stage1_inv_init:
  assumes "check_funds sp dp cuf = Inr ()" and "is_double (Fe dp)"
  shows "stage1_inv sp dp cuf 0 0 init_frame"
proof -
  from assms(1) obtain t where t: "fmul_if (MS sp) (Fe dp) = Inr t" and l: "fless t cuf"
    by (auto simp add: check_funds_def bind_err_eq_Inr py_assert_def split: if_splits)
  from l have "\<not> fless cuf t" by (rule fless_asym)
  with t have "fee_within sp dp cuf (Fin False 0)"
    by (simp add: fee_within_def calc_max_fee_zero assms(2))
  then show ?thesis by (simp add: stage1_inv_def init_frame_def)
qed

lemma stage1_inv_reached:
  assumes "check_funds sp dp cuf = Inr ()" and "is_double (Fe dp)"
    and "for_range k (stage1_body sp dp cuf) init_frame = Inr s" and "k \<le> 52"
  shows "\<exists>a. stage1_inv sp dp cuf k a s"
  using assms(3,4)
proof (induction k arbitrary: s)
  case 0
  then have "s = init_frame" by simp
  with stage1_inv_init [OF assms(1,2)] show ?case by blast
next
  case (Suc k)
  from Suc.prems(1) obtain t where t: "for_range k (stage1_body sp dp cuf) init_frame = Inr t"
    and b: "stage1_body sp dp cuf t = Inr s" by (rule for_range_Suc_Inr)
  from Suc.IH [OF t] Suc.prems(2) obtain a where "stage1_inv sp dp cuf k a t" by auto
  from stage1_inv_step [OF this _ b] Suc.prems(2) show ?case by auto
qed

text \<open>
  Claim C3, as the code has it. Under the precondition of line 87 and for a float \<open>Fe\<close>,
  whenever the first loop has completed \<open>k \<le> 50\<close> iterations: the bounds are
  \<open>a/2^k\<close> and \<open>(a+1)/2^k\<close> for an integer \<open>0 \<le> a < 2^k\<close>; the test of line 93 is false at
  the lower bound; the upper bound is still \<open>1.0\<close> or the test is true at it; \<open>x\<close> is the
  bound assigned last. A further iteration computes the midpoint \<open>(2a+1)/2^(k+1)\<close>
  without rounding and keeps one of the two halves. After the 50th iteration, \<open>x\<close> is the
  midpoint computed in that iteration, and lines 97 and 98 make it the upper bound of
  the second search.
\<close>

theorem feasibility_search_invariant:
  assumes "check_funds sp dp cuf = Inr ()" and "is_double (Fe dp)"
    and "k \<le> LOG_PRECISION"
    and "for_range k (stage1_body sp dp cuf) init_frame = Inr s"
  shows
    "(\<exists>a. stage1_inv sp dp cuf k a s \<and>
        (\<forall>u. stage1_body sp dp cuf s = Inr u \<longrightarrow>
           midpoint s = Inr (Fin False (real_of_int (2 * a + 1) / 2 ^ Suc k)) \<and>
           x_var u = Some (Fin False (real_of_int (2 * a + 1) / 2 ^ Suc k)) \<and>
           (stage1_inv sp dp cuf (Suc k) (2 * a) u \<and> x_var u = Some (high_x u) \<or>
            stage1_inv sp dp cuf (Suc k) (2 * a + 1) u \<and> x_var u = Some (low_x u)))) \<and>
     (k = LOG_PRECISION \<longrightarrow>
        (\<exists>t x. for_range (LOG_PRECISION - 1) (stage1_body sp dp cuf) init_frame = Inr t \<and>
           midpoint t = Inr x \<and> x_var s = Some x \<and>
           stage2_init s = Inr (s\<lparr>low_x := Fin False 0, high_x := x\<rparr>)))"
proof (intro conjI impI)
  from assms(3) have k: "k \<le> 52" "k \<le> 51" by (simp_all add: LOG_PRECISION_def)
  from stage1_inv_reached [OF assms(1,2,4) k(1)]
  obtain a where a: "stage1_inv sp dp cuf k a s" ..
  have "\<forall>u. stage1_body sp dp cuf s = Inr u \<longrightarrow>
           midpoint s = Inr (Fin False (real_of_int (2 * a + 1) / 2 ^ Suc k)) \<and>
           x_var u = Some (Fin False (real_of_int (2 * a + 1) / 2 ^ Suc k)) \<and>
           (stage1_inv sp dp cuf (Suc k) (2 * a) u \<and> x_var u = Some (high_x u) \<or>
            stage1_inv sp dp cuf (Suc k) (2 * a + 1) u \<and> x_var u = Some (low_x u))"
    using stage1_inv_step [OF a k(2)] by blast
  with a show "\<exists>a. stage1_inv sp dp cuf k a s \<and>
        (\<forall>u. stage1_body sp dp cuf s = Inr u \<longrightarrow>
           midpoint s = Inr (Fin False (real_of_int (2 * a + 1) / 2 ^ Suc k)) \<and>
           x_var u = Some (Fin False (real_of_int (2 * a + 1) / 2 ^ Suc k)) \<and>
           (stage1_inv sp dp cuf (Suc k) (2 * a) u \<and> x_var u = Some (high_x u) \<or>
            stage1_inv sp dp cuf (Suc k) (2 * a + 1) u \<and> x_var u = Some (low_x u)))"
    by blast
next
  assume "k = LOG_PRECISION"
  with assms(4) have "for_range (Suc (LOG_PRECISION - 1)) (stage1_body sp dp cuf) init_frame
      = Inr s" by (simp add: LOG_PRECISION_def)
  then obtain t where t: "for_range (LOG_PRECISION - 1) (stage1_body sp dp cuf) init_frame
      = Inr t" and b: "stage1_body sp dp cuf t = Inr s" by (rule for_range_Suc_Inr)
  from b obtain x where m: "midpoint t = Inr x" and x: "x_var s = Some x"
    by (rule stage1_body_Inr) blast
  from x have "stage2_init s = Inr (s\<lparr>low_x := Fin False 0, high_x := x\<rparr>)"
    by (simp add: stage2_init_def)
  with t m x show "\<exists>t x. for_range (LOG_PRECISION - 1) (stage1_body sp dp cuf) init_frame
      = Inr t \<and> midpoint t = Inr x \<and> x_var s = Some x \<and>
      stage2_init s = Inr (s\<lparr>low_x := Fin False 0, high_x := x\<rparr>)" by blast
qed

lemma calc_feerate_example_half:
  "calc_feerate (Fin False 10) (Fin False 2) (Fin False (1 / 2)) = Inr (Fin False 40)"
proof -
  have p: "rnd (rnd (1 - 1 / 2) powr 2) = 1 / 4"
    by (simp add: rnd_half_const power_divide rnd_quarter_const)
  from calc_feerate_eq [of "1 / 2" 2 "Fin False 10", unfolded p] show ?thesis by simp
qed

lemma midpoint_init: "midpoint init_frame = Inr (Fin False (1 / 2))"
  by (simp add: midpoint_def init_frame_def truediv_def pack_def rnd_half_const)

lemma check_funds_example:
  "check_funds example_static example_dynamic (Fin False (5726623061333333 / 2 ^ 33)) = Inr ()"
  by (simp add: check_funds_def fmul_if_def example_static_def example_dynamic_def
        py_assert_def)

lemma stage1_first_example:
  "stage1_body example_static example_dynamic (Fin False (5726623061333333 / 2 ^ 33)) init_frame
     = Inr \<lparr>low_x = Fin False (1 / 2), high_x = Fin False 1, x_var = Some (Fin False (1 / 2)),
            evals = [FeerateCall (Fin False (1 / 2))]\<rparr>"
proof -
  have "calc_max_fee example_static example_dynamic (Fin False (1 / 2)) = Inr (Fin False 8000)"
    using calc_feerate_example_half
    by (simp add: calc_max_fee_def example_static_def example_dynamic_def fmul_if_def)
  then show ?thesis
    by (simp add: stage1_body_def midpoint_init Let_def) (simp add: init_frame_def)
qed

theorem feasibility_search_invariant_witness:
  "check_funds example_static example_dynamic (Fin False (5726623061333333 / 2 ^ 33)) = Inr () \<and>
   is_double (Fe example_dynamic) \<and>
   for_range 1 (stage1_body example_static example_dynamic
       (Fin False (5726623061333333 / 2 ^ 33))) init_frame
     = Inr \<lparr>low_x = Fin False (1 / 2), high_x = Fin False 1, x_var = Some (Fin False (1 / 2)),
            evals = [FeerateCall (Fin False (1 / 2))]\<rparr> \<and>
   (\<exists>a. stage1_inv example_static example_dynamic (Fin False (5726623061333333 / 2 ^ 33)) 1 a
      \<lparr>low_x = Fin False (1 / 2), high_x = Fin False 1, x_var = Some (Fin False (1 / 2)),
       evals = [FeerateCall (Fin False (1 / 2))]\<rparr>)"
proof -
  let ?cuf = "Fin False (5726623061333333 / 2 ^ 33)"
  let ?s = "\<lparr>low_x = Fin False (1 / 2), high_x = Fin False 1, x_var = Some (Fin False (1 / 2)),
            evals = [FeerateCall (Fin False (1 / 2))]\<rparr>"
  have d: "is_double (Fe example_dynamic)" by (simp add: example_dynamic_def)
  have r: "for_range 1 (stage1_body example_static example_dynamic ?cuf) init_frame = Inr ?s"
    using stage1_first_example by simp
  have k: "1 \<le> LOG_PRECISION" by (simp add: LOG_PRECISION_def)
  from feasibility_search_invariant [OF check_funds_example d k r]
  have "\<exists>a. stage1_inv example_static example_dynamic ?cuf 1 a ?s" by blast
  with check_funds_example d r show ?thesis by blast
qed

text \<open>
  The invariant as the specification states it fails after the first iteration. With
  \<open>Fe = 0\<close> and the other parameters of the example, the row passes lines 76 to 87 and the
  first iteration assigns the midpoint \<open>0.5\<close> to \<open>low_x\<close>: then \<open>high_x\<close> is \<open>1.0\<close>, which is
  not the current midpoint, and the fee at \<open>1.0\<close> does not exceed \<open>cuf\<close>: it has no value,
  \<open>calc_feerate\<close> raising \<open>ZeroDivisionError\<close> at \<open>x = 1.0\<close>.
\<close>

theorem stated_invariant_counterexample:
  "preconditions example_static (example_dynamic\<lparr>Fe := Fin False 0\<rparr>)
     = Inr (Fin False (5726623061333333 / 2 ^ 33)) \<and>
   stage1_body example_static (example_dynamic\<lparr>Fe := Fin False 0\<rparr>)
       (Fin False (5726623061333333 / 2 ^ 33)) init_frame
     = Inr \<lparr>low_x = Fin False (1 / 2), high_x = Fin False 1, x_var = Some (Fin False (1 / 2)),
            evals = [FeerateCall (Fin False (1 / 2))]\<rparr> \<and>
   calc_max_fee example_static (example_dynamic\<lparr>Fe := Fin False 0\<rparr>) (Fin False 1)
     = Inl ZeroDivisionError \<and>
   \<not> fee_exceeds example_static (example_dynamic\<lparr>Fe := Fin False 0\<rparr>)
       (Fin False (5726623061333333 / 2 ^ 33)) (Fin False 1)"
proof -
  let ?dp = "example_dynamic\<lparr>Fe := Fin False 0\<rparr>"
  let ?cuf = "Fin False (5726623061333333 / 2 ^ 33)"
  have c: "calc_cuf ?dp = Inr ?cuf"
    using calc_cuf_example by (simp add: calc_cuf_def example_dynamic_def)
  have r: "range_invariants example_static ?dp"
    by (simp add: range_invariants_def example_static_def example_dynamic_def)
  have f: "check_funds example_static ?dp ?cuf = Inr ()"
    by (simp add: check_funds_def fmul_if_def example_static_def example_dynamic_def
          py_assert_def)
  have p: "preconditions example_static ?dp = Inr ?cuf"
    using r c f by (simp add: preconditions_def check_params_eq)
  have q: "rnd (rnd (1 - 1 / 2) powr 2) = 1 / 4"
    by (simp add: rnd_half_const power_divide rnd_quarter_const)
  from calc_feerate_eq [of "1 / 2" 2 "Fin False 0", unfolded q]
  have "calc_feerate (Fin False 0) (Fin False 2) (Fin False (1 / 2)) = Inr (Fin False 0)"
    by simp
  then have "calc_max_fee example_static ?dp (Fin False (1 / 2)) = Inr (Fin False 0)"
    by (simp add: calc_max_fee_def example_static_def example_dynamic_def fmul_if_def)
  then have b: "stage1_body example_static ?dp ?cuf init_frame
     = Inr \<lparr>low_x = Fin False (1 / 2), high_x = Fin False 1, x_var = Some (Fin False (1 / 2)),
            evals = [FeerateCall (Fin False (1 / 2))]\<rparr>"
    by (simp add: stage1_body_def midpoint_init Let_def) (simp add: init_frame_def)
  have z: "calc_max_fee example_static ?dp (Fin False 1) = Inl ZeroDivisionError"
    by (simp add: calc_max_fee_def calc_feerate_def fsub_def example_dynamic_def
          float_pow.simps truediv_def)
  then have n: "\<not> fee_exceeds example_static ?dp ?cuf (Fin False 1)"
    by (simp add: fee_exceeds_def)
  from p b z n show ?thesis by blast
qed

end
